theory Spec2Isabelle
  imports Main "HOL-Library.AList"
begin

section \<open>JavaScript strings\<close>

text \<open>
  A JavaScript string is a sequence of code units. The model uses \<^typ>\<open>string\<close>, so a
  character is a code unit below 256. The character classes are those of ECMAScript:
  \<^verbatim>\<open>\w\<close> is \<^verbatim>\<open>[A-Za-z0-9_]\<close>, \<^verbatim>\<open>\s\<close> is white space and line terminators (below 256:
  TAB, LF, VT, FF, CR, SPACE, NBSP), and \<^verbatim>\<open>.\<close> is every character except a line terminator
  (below 256: LF and CR).
\<close>

definition isWordChar :: "char \<Rightarrow> bool" where
  "isWordChar c = (let n = (of_char c :: nat) in
     (48 \<le> n \<and> n \<le> 57) \<or> (65 \<le> n \<and> n \<le> 90) \<or> n = 95 \<or> (97 \<le> n \<and> n \<le> 122))"

definition isSpaceChar :: "char \<Rightarrow> bool" where
  "isSpaceChar c = (let n = (of_char c :: nat) in (9 \<le> n \<and> n \<le> 13) \<or> n = 32 \<or> n = 160)"

definition isLineTerminator :: "char \<Rightarrow> bool" where
  "isLineTerminator c = (let n = (of_char c :: nat) in n = 10 \<or> n = 13)"

definition isDot :: "char \<Rightarrow> bool" where
  "isDot c = (\<not> isLineTerminator c)"

text \<open>The class \<^verbatim>\<open>[\w\s,]\<close> of the characters of a name list.\<close>

definition isTypeChar :: "char \<Rightarrow> bool" where
  "isTypeChar c = (isWordChar c \<or> isSpaceChar c \<or> c = CHR '','')"

text \<open>\<^verbatim>\<open>String.prototype.trim\<close>: white space and line terminators removed at both ends.\<close>

definition trim :: "string \<Rightarrow> string" where
  "trim s = rev (dropWhile isSpaceChar (rev (dropWhile isSpaceChar s)))"

text \<open>\<^verbatim>\<open>s.split(',')\<close>: the pieces between the separators; never an empty array.\<close>

fun split_on :: "char \<Rightarrow> string \<Rightarrow> string list" where
  "split_on d [] = [[]]"
| "split_on d (c # cs) =
     (if c = d then [] # split_on d cs
      else (case split_on d cs of [] \<Rightarrow> [[c]] | h # t \<Rightarrow> (c # h) # t))"

text \<open>\<^verbatim>\<open>a.join(sep)\<close> on an array of strings.\<close>

fun join :: "string \<Rightarrow> string list \<Rightarrow> string" where
  "join sep [] = []"
| "join sep [x] = x"
| "join sep (x # y # ys) = x @ sep @ join sep (y # ys)"

definition startsWith :: "string \<Rightarrow> string \<Rightarrow> bool" where
  "startsWith s p = (take (length p) s = p)"

definition endsWith :: "string \<Rightarrow> string \<Rightarrow> bool" where
  "endsWith s p = (length p \<le> length s \<and> drop (length s - length p) s = p)"

text \<open>String conversion of a value that may be \<^verbatim>\<open>undefined\<close> (in a template literal).\<close>

definition toStr :: "string option \<Rightarrow> string" where
  "toStr v = (case v of None \<Rightarrow> ''undefined'' | Some s \<Rightarrow> s)"

section \<open>Regular expressions\<close>

text \<open>
  The plugin recognises everything with four regular expressions. They are modelled by a
  backtracking matcher in the style of the ECMAScript specification: \<open>rx_match r (inp, cs)\<close>
  is the list of all ways in which \<open>r\<close> matches a prefix of \<open>inp\<close>, in the order in which
  backtracking tries them; a way is the rest of the input and the captures. The match that
  JavaScript reports is the head of the list. A greedy star tries one more iteration first,
  a lazy one tries to stop first, and an iteration that consumes nothing is rejected.
\<close>

datatype rx =
    Lit char
  | Cls "char \<Rightarrow> bool"
  | Seq rx rx
  | Star rx
  | LazyStar rx
  | Opt rx
  | Grp nat rx
  | Eol

type_synonym caps = "nat \<Rightarrow> string option"
type_synonym mstate = "string \<times> caps"

function rx_match :: "rx \<Rightarrow> mstate \<Rightarrow> mstate list" where
  "rx_match (Lit c) (inp, cs) =
     (case inp of [] \<Rightarrow> [] | x # xs \<Rightarrow> if x = c then [(xs, cs)] else [])"
| "rx_match (Cls P) (inp, cs) =
     (case inp of [] \<Rightarrow> [] | x # xs \<Rightarrow> if P x then [(xs, cs)] else [])"
| "rx_match (Seq a b) (inp, cs) = concat (map (rx_match b) (rx_match a (inp, cs)))"
| "rx_match (Star a) (inp, cs) =
     concat (map (\<lambda>st. if length (fst st) < length inp then rx_match (Star a) st else [])
              (rx_match a (inp, cs)))
     @ [(inp, cs)]"
| "rx_match (LazyStar a) (inp, cs) =
     (inp, cs) #
     concat (map (\<lambda>st. if length (fst st) < length inp then rx_match (LazyStar a) st else [])
              (rx_match a (inp, cs)))"
| "rx_match (Opt a) (inp, cs) = rx_match a (inp, cs) @ [(inp, cs)]"
| "rx_match (Grp k a) (inp, cs) =
     map (\<lambda>st. (fst st, (snd st)(k \<mapsto> take (length inp - length (fst st)) inp)))
       (rx_match a (inp, cs))"
| "rx_match Eol (inp, cs) = (if inp = [] then [(inp, cs)] else [])"
  by pat_completeness auto
termination
  by (relation "measures [\<lambda>(r, st). size r, \<lambda>(r, st). length (fst st)]") auto

definition Plus :: "rx \<Rightarrow> rx" where
  "Plus a = Seq a (Star a)"

text \<open>A sequence of expressions; the empty sequence matches the empty string.\<close>

fun seqs :: "rx list \<Rightarrow> rx" where
  "seqs [] = Star Eol"
| "seqs [r] = r"
| "seqs (r # rs) = Seq r (seqs rs)"

definition lits :: "string \<Rightarrow> rx" where
  "lits s = seqs (map Lit s)"

text \<open>
  \<open>rx_exec r s\<close> is \<^verbatim>\<open>r.exec(s)\<close> from index 0: the leftmost position at which \<open>r\<close>
  matches, as the text before the match, the text after it and the captures.
\<close>

fun rx_exec :: "rx \<Rightarrow> string \<Rightarrow> (string \<times> string \<times> caps) option" where
  "rx_exec r [] =
     (case rx_match r ([], Map.empty) of [] \<Rightarrow> None | st # _ \<Rightarrow> Some ([], fst st, snd st))"
| "rx_exec r (x # xs) =
     (case rx_match r (x # xs, Map.empty) of
        [] \<Rightarrow> map_option (\<lambda>(pre, rest, cs). (x # pre, rest, cs)) (rx_exec r xs)
      | st # _ \<Rightarrow> Some ([], fst st, snd st))"

lemma rx_match_suffix:
  "st' \<in> set (rx_match r st) \<Longrightarrow> \<exists>pre. fst st = pre @ fst st'"
proof (induction r st arbitrary: st' rule: rx_match.induct)
  case (3 a b inp cs)
  from "3.prems" obtain mid where mid: "mid \<in> set (rx_match a (inp, cs))"
    and st': "st' \<in> set (rx_match b mid)" by auto
  from "3.IH"(1)[OF mid] obtain p1 where "inp = p1 @ fst mid" by auto
  moreover from "3.IH"(2)[OF mid st'] obtain p2 where "fst mid = p2 @ fst st'" by auto
  ultimately show ?case by auto
next
  case (4 a inp cs)
  show ?case
  proof (cases "st' = (inp, cs)")
    case True
    then show ?thesis by simp
  next
    case False
    with "4.prems" obtain mid where mid: "mid \<in> set (rx_match a (inp, cs))"
      and lt: "length (fst mid) < length inp"
      and st': "st' \<in> set (rx_match (Star a) mid)"
      by (auto split: if_splits)
    from "4.IH"(1)[OF mid] obtain p1 where "inp = p1 @ fst mid" by auto
    moreover from "4.IH"(2)[OF mid lt st'] obtain p2 where "fst mid = p2 @ fst st'" by auto
    ultimately show ?thesis by auto
  qed
next
  case (5 a inp cs)
  show ?case
  proof (cases "st' = (inp, cs)")
    case True
    then show ?thesis by simp
  next
    case False
    with "5.prems" obtain mid where mid: "mid \<in> set (rx_match a (inp, cs))"
      and lt: "length (fst mid) < length inp"
      and st': "st' \<in> set (rx_match (LazyStar a) mid)"
      by (auto split: if_splits)
    from "5.IH"(1)[OF mid] obtain p1 where "inp = p1 @ fst mid" by auto
    moreover from "5.IH"(2)[OF mid lt st'] obtain p2 where "fst mid = p2 @ fst st'" by auto
    ultimately show ?thesis by auto
  qed
qed (auto split: list.splits if_splits)

lemma rx_exec_decomp:
  "rx_exec r s = Some (pre, rest, cs) \<Longrightarrow> \<exists>mid. s = pre @ mid @ rest"
proof (induction s arbitrary: pre)
  case Nil
  then obtain st sts where m: "rx_match r ([], Map.empty) = st # sts" and p: "pre = []"
    and r: "rest = fst st"
    by (auto split: list.splits)
  from m have "st \<in> set (rx_match r ([], Map.empty))" by simp
  from rx_match_suffix[OF this] p r show ?case by auto
next
  case (Cons x xs)
  show ?case
  proof (cases "rx_match r (x # xs, Map.empty)")
    case Nil
    with Cons.prems obtain pre' where e: "rx_exec r xs = Some (pre', rest, cs)"
      and p: "pre = x # pre'" by auto
    from Cons.IH[OF e] p show ?thesis by auto
  next
    case (Cons st sts)
    with Cons.prems have p: "pre = []" and r: "rest = fst st" by auto
    from Cons have "st \<in> set (rx_match r (x # xs, Map.empty))" by simp
    from rx_match_suffix[OF this] p r show ?thesis by auto
  qed
qed

lemma rx_exec_length:
  "rx_exec r s = Some (pre, rest, cs) \<Longrightarrow> length pre + length rest \<le> length s"
  by (drule rx_exec_decomp) auto

text \<open>
  \<^verbatim>\<open>[...s.matchAll(r)]\<close> for a global expression: the captures of the successive matches,
  each search starting where the match before ended (one character further after an
  empty match).
\<close>

function matchAll :: "rx \<Rightarrow> string \<Rightarrow> caps list" where
  "matchAll r s =
     (case rx_exec r s of
        None \<Rightarrow> []
      | Some (pre, rest, cs) \<Rightarrow>
          cs # (if length pre + length rest < length s then matchAll r rest
                else (case rest of [] \<Rightarrow> [] | c # t \<Rightarrow> matchAll r t)))"
  by pat_completeness auto
termination
  by (relation "measure (\<lambda>(r, s). length s)") (auto dest: rx_exec_length)

text \<open>\<^verbatim>\<open>s.replace(r, '')\<close> for a global expression: every match removed.\<close>

function rx_remove_all :: "rx \<Rightarrow> string \<Rightarrow> string" where
  "rx_remove_all r s =
     (case rx_exec r s of
        None \<Rightarrow> s
      | Some (pre, rest, cs) \<Rightarrow>
          pre @ (if length pre + length rest < length s then rx_remove_all r rest
                 else (case rest of [] \<Rightarrow> [] | c # t \<Rightarrow> c # rx_remove_all r t)))"
  by pat_completeness auto
termination
  by (relation "measure (\<lambda>(r, s). length s)") (auto dest: rx_exec_length)

declare matchAll.simps [simp del] rx_remove_all.simps [simp del]

text \<open>A capture group that takes part in every match of its expression.\<close>

definition grp :: "caps \<Rightarrow> nat \<Rightarrow> string" where
  "grp cs k = (case cs k of None \<Rightarrow> [] | Some s \<Rightarrow> s)"

subsection \<open>The four expressions of the plugin\<close>

definition rxSpace :: rx where "rxSpace = Cls isSpaceChar"
definition rxWord :: rx where "rxWord = Cls isWordChar"
definition rxQuote :: rx where "rxQuote = Cls (\<lambda>c. c = CHR 0x27 \<or> c = CHR 0x22)"
definition rxNotQuote :: rx where "rxNotQuote = Cls (\<lambda>c. c \<noteq> CHR 0x27 \<and> c \<noteq> CHR 0x22)"
definition rxNotBrace :: rx where "rxNotBrace = Cls (\<lambda>c. c \<noteq> CHR ''{'' \<and> c \<noteq> CHR ''}'')"
definition rxTypeChar :: rx where "rxTypeChar = Cls isTypeChar"

text \<open>\<^verbatim>\<open>(?:\.\w+)*\<close>, the dotted path after an import or a require.\<close>

definition rxDotted :: rx where
  "rxDotted = Star (Seq (Lit CHR ''.'') (Plus rxWord))"

text \<open>
  \<^verbatim>\<open>/\/\*\*\s*?@typedef\s+\{import\(['"]([^'"]+)['"]\)*((?:\.\w+)*)\}\s+(\w+)\s*?\*\//g\<close>
\<close>

definition typedefRegex :: rx where
  "typedefRegex = seqs [lits ''/**'', LazyStar rxSpace, lits ''@typedef'', Plus rxSpace,
     lits ''{import('', rxQuote, Grp 1 (Plus rxNotQuote), rxQuote, Star (Lit CHR '')''),
     Grp 2 rxDotted, Lit CHR ''}'', Plus rxSpace, Grp 3 (Plus rxWord), LazyStar rxSpace,
     lits ''*/'']"

text \<open>
  \<^verbatim>\<open>/const\s+(\w+)\s*=\s*require\(['"]([^'"]+)['"]\)((?:\.\w+)*)\s*?;/g\<close>
\<close>

definition simpleRequire :: rx where
  "simpleRequire = seqs [lits ''const'', Plus rxSpace, Grp 1 (Plus rxWord), Star rxSpace,
     Lit CHR ''='', Star rxSpace, lits ''require('', rxQuote, Grp 2 (Plus rxNotQuote), rxQuote,
     Lit CHR '')'', Grp 3 rxDotted, LazyStar rxSpace, Lit CHR '';'']"

text \<open>
  \<^verbatim>\<open>/const\s+\{([^{}]+)\}\s*=\s*require\(['"]([^'"]+)['"]\)((?:\.\w+)*)\s*?;/g\<close>
\<close>

definition destructRequire :: rx where
  "destructRequire = seqs [lits ''const'', Plus rxSpace, Lit CHR ''{'', Grp 1 (Plus rxNotBrace),
     Lit CHR ''}'', Star rxSpace, Lit CHR ''='', Star rxSpace, lits ''require('', rxQuote,
     Grp 2 (Plus rxNotQuote), rxQuote, Lit CHR '')'', Grp 3 rxDotted, LazyStar rxSpace,
     Lit CHR '';'']"

text \<open>\<^verbatim>\<open>/([\w\s,]+)(?:.<(.*)>)?$/\<close>: not anchored at the start, and its dot is not escaped.\<close>

definition rxGeneric :: rx where
  "rxGeneric = seqs [Cls isDot, Lit CHR ''<'', Grp 2 (Star (Cls isDot)), Lit CHR ''>'']"

definition typeMatchRx :: rx where
  "typeMatchRx = seqs [Grp 1 (Plus rxTypeChar), Opt rxGeneric, Eol]"

text \<open>
  \<^verbatim>\<open>name.match(typeMatch)\<close>: \<open>None\<close> is \<^verbatim>\<open>null\<close>; otherwise \<^verbatim>\<open>match[1]\<close> and
  \<^verbatim>\<open>match[2]\<close>, the latter \<^verbatim>\<open>undefined\<close> (\<open>None\<close>) when the optional group took no part.
\<close>

definition typeMatch :: "string \<Rightarrow> (string \<times> string option) option" where
  "typeMatch name = map_option (\<lambda>(pre, rest, cs). (grp cs 1, cs 2)) (rx_exec typeMatchRx name)"

section \<open>The path module of Node.js\<close>

text \<open>
  The plugin calls \<^verbatim>\<open>path.resolve\<close> and \<^verbatim>\<open>path.dirname\<close> of Node.js. They are not code of
  the plugin, so the handlers take them as a parameter. \<open>posix_path cwd\<close> is a model of the
  POSIX implementation, after the documentation of Node.js, for the concrete runs below:
  \<^verbatim>\<open>resolve\<close> joins its arguments from the right until the path is absolute, falls back
  on the working directory, and normalises \<^verbatim>\<open>.\<close>, \<^verbatim>\<open>..\<close> and repeated slashes;
  \<^verbatim>\<open>dirname\<close> skips the slashes at the end, cuts at the last slash before them, and
  answers \<^verbatim>\<open>//\<close> when that slash is the second character of an absolute path.
\<close>

record path_api =
  p_resolve :: "string \<Rightarrow> string \<Rightarrow> string"
  p_dirname :: "string \<Rightarrow> string"

fun normalizeSegments :: "string list \<Rightarrow> string list \<Rightarrow> string list" where
  "normalizeSegments acc [] = rev acc"
| "normalizeSegments acc (seg # segs) =
     (if seg = [] \<or> seg = ''.'' then normalizeSegments acc segs
      else if seg = ''..'' then normalizeSegments (tl acc) segs
      else normalizeSegments (seg # acc) segs)"

definition posix_resolve :: "string \<Rightarrow> string \<Rightarrow> string \<Rightarrow> string" where
  "posix_resolve cwd a b =
     (let joined = (if startsWith b ''/'' then b
                    else if startsWith a ''/'' then a @ ''/'' @ b
                    else cwd @ ''/'' @ a @ ''/'' @ b)
      in ''/'' @ join ''/'' (normalizeSegments [] (split_on CHR ''/'' joined)))"

definition posix_dirname :: "string \<Rightarrow> string" where
  "posix_dirname p =
     (if p = [] then ''.''
      else let body = dropWhile (\<lambda>c. c = CHR ''/'') (rev (tl p));
               up = dropWhile (\<lambda>c. c \<noteq> CHR ''/'') body
           in if up = [] then (if hd p = CHR ''/'' then ''/'' else ''.'')
              else if hd p = CHR ''/'' \<and> tl up = [] then ''//''
              else hd p # rev (tl up))"

definition posix_path :: "string \<Rightarrow> path_api" where
  "posix_path cwd = \<lparr>p_resolve = posix_resolve cwd, p_dirname = posix_dirname\<rparr>"

section \<open>Data model\<close>

text \<open>
  A JavaScript \<^verbatim>\<open>Map\<close> is an association list without repeated keys, in insertion order:
  \<^verbatim>\<open>get\<close> is \<^const>\<open>map_of\<close>, \<^verbatim>\<open>set\<close> is \<^const>\<open>AList.update\<close> (an existing key keeps its
  place, a new one goes last), and iteration follows the list.

  The value of a local alias is the request \<^verbatim>\<open>[file, exported]\<close> until it is resolved, and
  the long name or \<^verbatim>\<open>null\<close> afterwards.
\<close>

datatype jsval = JStr string | JNull | JPair string string

datatype js_error =
    TypeError
  | ParseError string nat

text \<open>
  \<open>ParseError f l\<close> is \<^verbatim>\<open>new Error(`Error parsing ${meta.filename}:${meta.lineno}.`)\<close> with
  its two variable parts; \<open>TypeError\<close> is what JavaScript raises when a property of
  \<^verbatim>\<open>undefined\<close> or \<^verbatim>\<open>null\<close> is read.
\<close>

record FileInfo =
  filename :: string
  localImportAliases :: "(string \<times> jsval) list"
  longnamesByDeclaration :: "(string option \<times> string) list"
  mappings :: "(string option \<times> string option) list"
  exports :: "(string \<times> string) list"

text \<open>
  The keys of \<open>longnamesByDeclaration\<close> and both sides of \<open>mappings\<close> come from
  \<^verbatim>\<open>meta.code\<close> of a doclet, where they may be \<^verbatim>\<open>undefined\<close> (\<open>None\<close>).
\<close>

definition newFileInfo :: "string \<Rightarrow> FileInfo" where
  "newFileInfo fname = \<lparr>filename = fname, localImportAliases = [],
     longnamesByDeclaration = [], mappings = [], exports = []\<rparr>"

text \<open>
  \<open>fileinfoByFile\<close>, the registry, is a \<^verbatim>\<open>Map\<close> from file names to \<open>FileInfo\<close> objects.
  Nothing but the registry refers to a \<open>FileInfo\<close>, so the file name is its address: a
  function that mutates the object it got from \<open>getFileInfo\<close> stores the new value under
  that name.
\<close>

type_synonym registry = "(string \<times> FileInfo) list"

definition getFileInfo :: "registry \<Rightarrow> string \<Rightarrow> bool \<Rightarrow> FileInfo option \<times> registry" where
  "getFileInfo reg fname getNew =
     (let fileinfo = map_of reg fname in
      if \<not> getNew then (fileinfo, reg)
      else (case fileinfo of
              Some fi \<Rightarrow> (Some fi, reg)
            | None \<Rightarrow> (let fi = newFileInfo fname in (Some fi, AList.update fname fi reg))))"

text \<open>The registry after a sequence of calls of \<open>getFileInfo\<close>.\<close>

fun getFileInfos :: "registry \<Rightarrow> (string \<times> bool) list \<Rightarrow> registry" where
  "getFileInfos reg [] = reg"
| "getFileInfos reg ((fname, getNew) # calls) =
     getFileInfos (snd (getFileInfo reg fname getNew)) calls"

definition records_for :: "string \<Rightarrow> registry \<Rightarrow> nat" where
  "records_for fname reg = length (filter (\<lambda>kv. fst kv = fname) reg)"

subsection \<open>Doclets\<close>

record code_meta =
  c_type :: "string option"
  c_name :: "string option"
  c_value :: "string option"

record doclet_meta =
  m_path :: string
  m_filename :: string
  m_lineno :: nat
  m_code :: code_meta

text \<open>
  The type of a parameter, a property or a return value is \<^verbatim>\<open>{names: [...]}\<close> or absent;
  the other fields of these entries are not read.
\<close>

type_synonym type_names = "string list option"

record doclet =
  d_kind :: string
  d_name :: string
  d_longname :: string
  d_scope :: string
  d_meta :: "doclet_meta option"
  d_augments :: "string list option"
  d_properties :: "type_names list option"
  d_params :: "type_names list option"
  d_returns :: "type_names list option"

record JSDOCEvent =
  e_filename :: string
  e_source :: string

section \<open>Collecting the aliases of a file\<close>

definition withExt :: "string \<Rightarrow> string" where
  "withExt file = (if endsWith file ''.js'' then file else file @ ''.js'')"

text \<open>
  The three collectors have one shape: nothing happens without a match; otherwise the
  \<open>FileInfo\<close> of the file is created if absent and every match sets its alias.
\<close>

definition typedefImportAliases :: "path_api \<Rightarrow> registry \<Rightarrow> JSDOCEvent \<Rightarrow> registry \<times> JSDOCEvent" where
  "typedefImportAliases P reg e =
     (let fname = e_filename e;
          matched_all = matchAll typedefRegex (e_source e)
      in if matched_all = [] then (reg, e)
         else (case getFileInfo reg fname True of
                 (None, reg') \<Rightarrow> (reg', e)
               | (Some fileinfo, reg') \<Rightarrow>
                   (AList.update fname
                      (fold (\<lambda>matched fi.
                          let dir = p_dirname P fname;
                              file = withExt (p_resolve P dir (grp matched 1));
                              exported = drop 1 (grp matched 2);
                              localAlias = grp matched 3
                          in fi\<lparr>localImportAliases :=
                                  AList.update localAlias (JPair file exported)
                                    (localImportAliases fi)\<rparr>)
                        matched_all fileinfo) reg',
                    e\<lparr>e_source := rx_remove_all typedefRegex (e_source e)\<rparr>)))"

definition constSimpleRequireAliases :: "path_api \<Rightarrow> registry \<Rightarrow> JSDOCEvent \<Rightarrow> registry" where
  "constSimpleRequireAliases P reg e =
     (let fname = e_filename e;
          simpleRequireAll = matchAll simpleRequire (e_source e)
      in if simpleRequireAll = [] then reg
         else (case getFileInfo reg fname True of
                 (None, reg') \<Rightarrow> reg'
               | (Some fileinfo, reg') \<Rightarrow>
                   AList.update fname
                     (fold (\<lambda>matched fi.
                         let dir = p_dirname P fname;
                             file = withExt (p_resolve P dir (grp matched 2));
                             exported = drop 1 (grp matched 3);
                             localAlias = grp matched 1
                         in fi\<lparr>localImportAliases :=
                                 AList.update localAlias (JPair file exported)
                                   (localImportAliases fi)\<rparr>)
                       simpleRequireAll fileinfo) reg'))"

definition constDestructRequireAliases :: "path_api \<Rightarrow> registry \<Rightarrow> JSDOCEvent \<Rightarrow> registry" where
  "constDestructRequireAliases P reg e =
     (let fname = e_filename e;
          destructRequireAll = matchAll destructRequire (e_source e)
      in if destructRequireAll = [] then reg
         else (case getFileInfo reg fname True of
                 (None, reg') \<Rightarrow> reg'
               | (Some fileinfo, reg') \<Rightarrow>
                   AList.update fname
                     (fold (\<lambda>matched fi.
                         let dir = p_dirname P fname;
                             file = withExt (p_resolve P dir (grp matched 2));
                             exported = drop 1 (grp matched 3);
                             exportedNames = map trim (split_on CHR '','' (grp matched 1))
                         in fold (\<lambda>name fi.
                              let fullexport = (if exported \<noteq> [] then exported @ ''.'' @ name
                                                else name);
                                  localAlias = name
                              in fi\<lparr>localImportAliases :=
                                      AList.update localAlias (JPair file fullexport)
                                        (localImportAliases fi)\<rparr>)
                            exportedNames fi)
                       destructRequireAll fileinfo) reg'))"

text \<open>
  The handler of the event \<^verbatim>\<open>beforeParse\<close>. The first collector replaces \<^verbatim>\<open>e.source\<close>, and
  the other two read the new text.
\<close>

definition beforeParse :: "path_api \<Rightarrow> registry \<Rightarrow> JSDOCEvent \<Rightarrow> registry \<times> JSDOCEvent" where
  "beforeParse P reg e =
     (let (reg1, e1) = typedefImportAliases P reg e;
          reg2 = constSimpleRequireAliases P reg1 e1;
          reg3 = constDestructRequireAliases P reg2 e1
      in (reg3, e1))"

section \<open>Indexing the declarations of a file\<close>

text \<open>
  \<open>meta\<close> is \<^verbatim>\<open>doclet.meta\<close>, which \<open>newDoclet\<close> has read before it calls the two
  indexing functions.
\<close>

definition indexLongnames :: "FileInfo \<Rightarrow> doclet \<Rightarrow> doclet_meta \<Rightarrow> FileInfo" where
  "indexLongnames fileinfo doclet meta =
     (if d_kind doclet \<noteq> ''class'' \<and> d_kind doclet \<noteq> ''function'' then fileinfo
      else let codename = c_name (m_code meta) in
        if d_name doclet \<noteq> d_longname doclet
        then fileinfo\<lparr>longnamesByDeclaration :=
               AList.update (Some (d_name doclet)) (d_longname doclet)
                 (AList.update codename (d_longname doclet) (longnamesByDeclaration fileinfo))\<rparr>
        else fileinfo)"

definition indexMappings :: "FileInfo \<Rightarrow> doclet \<Rightarrow> doclet_meta \<Rightarrow> FileInfo" where
  "indexMappings fileinfo doclet meta =
     (if d_kind doclet = ''class'' \<or> d_kind doclet = ''function'' then fileinfo
      else if c_type (m_code meta) \<noteq> Some ''Identifier'' then fileinfo
      else fileinfo\<lparr>mappings :=
             AList.update (c_name (m_code meta)) (c_value (m_code meta)) (mappings fileinfo)\<rparr>)"

text \<open>
  The handler of the event \<^verbatim>\<open>newDoclet\<close>. Reading \<^verbatim>\<open>meta.path\<close> of a doclet without
  \<^verbatim>\<open>meta\<close> raises.
\<close>

definition newDoclet :: "path_api \<Rightarrow> registry \<Rightarrow> doclet \<Rightarrow> js_error + registry" where
  "newDoclet P reg doclet =
     (case d_meta doclet of
        None \<Rightarrow> Inl TypeError
      | Some meta \<Rightarrow>
          (let fname = p_resolve P (m_path meta) (m_filename meta) in
           if d_scope doclet \<noteq> ''global'' \<and> d_scope doclet \<noteq> ''static'' then Inr reg
           else (case getFileInfo reg fname True of
                   (None, reg') \<Rightarrow> Inr reg'
                 | (Some fileinfo, reg') \<Rightarrow>
                     Inr (AList.update fname
                            (indexMappings (indexLongnames fileinfo doclet meta) doclet meta)
                            reg'))))"

section \<open>The export table of a file\<close>

text \<open>
  \<^verbatim>\<open>const longname = m.get(k); if (longname) ...\<close>: the entry counts when it is there and is
  not the empty string.
\<close>

definition get_truthy :: "('k \<times> string) list \<Rightarrow> 'k \<Rightarrow> string option" where
  "get_truthy m k = (case map_of m k of None \<Rightarrow> None | Some l \<Rightarrow> if l = [] then None else Some l)"

text \<open>
  The second loop of \<open>indexExports\<close>. A key that is not a string is skipped. When the
  active alias is \<^verbatim>\<open>undefined\<close>, the prefix is \<^verbatim>\<open>undefined.\<close> and reading
  \<^verbatim>\<open>exportsAlias.length\<close> raises.
\<close>

fun exportsLoop :: "string option \<Rightarrow> (string option \<times> string) list \<Rightarrow>
    (string option \<times> string option) list \<Rightarrow> (string \<times> string) list \<Rightarrow>
    js_error + (string \<times> string) list" where
  "exportsLoop exportsAlias longnames [] ex = Inr ex"
| "exportsLoop exportsAlias longnames ((key, val) # entries) ex =
     (case key of
        None \<Rightarrow> exportsLoop exportsAlias longnames entries ex
      | Some k \<Rightarrow>
          if startsWith k (toStr exportsAlias @ ''.'')
          then (case exportsAlias of
                  None \<Rightarrow> Inl TypeError
                | Some a \<Rightarrow>
                    (let exportKey = drop (length a + 1) k in
                     case get_truthy longnames val of
                       Some longname \<Rightarrow>
                         exportsLoop exportsAlias longnames entries
                           (AList.update exportKey longname ex)
                     | None \<Rightarrow> exportsLoop exportsAlias longnames entries ex))
          else exportsLoop exportsAlias longnames entries ex)"

text \<open>The first loop: the key of the last assignment of the value \<^verbatim>\<open>'exports'\<close> wins.\<close>

definition exportsAliasLoop :: "(string option \<times> string option) list \<Rightarrow> string option \<Rightarrow>
    string option" where
  "exportsAliasLoop entries exportsAlias =
     fold (\<lambda>(key, val) alias. if val = Some ''exports'' then key else alias) entries exportsAlias"

definition indexExports :: "FileInfo \<Rightarrow> js_error + FileInfo" where
  "indexExports fileinfo =
     (let (exportsAlias0, exports0) =
        (case map_of (mappings fileinfo) (Some ''module.exports'') of
           None \<Rightarrow> (Some ''exports'', exports fileinfo)
         | Some moduleExports \<Rightarrow>
             (moduleExports,
              case get_truthy (longnamesByDeclaration fileinfo) moduleExports of
                Some longname \<Rightarrow> AList.update ''*'' longname (exports fileinfo)
              | None \<Rightarrow> exports fileinfo));
          exportsAlias = exportsAliasLoop (mappings fileinfo) exportsAlias0
      in case exportsLoop exportsAlias (longnamesByDeclaration fileinfo) (mappings fileinfo)
                exports0 of
           Inl err \<Rightarrow> Inl err
         | Inr ex \<Rightarrow> Inr (fileinfo\<lparr>exports := ex\<rparr>))"

section \<open>Resolving the aliases of a file\<close>

text \<open>
  \<^verbatim>\<open>request[i]\<close>: an element of the pair, a character of a string, \<^verbatim>\<open>undefined\<close> out of
  range, and an exception on \<^verbatim>\<open>null\<close>.
\<close>

definition js_index :: "jsval \<Rightarrow> nat \<Rightarrow> js_error + string option" where
  "js_index v i =
     (case v of
        JNull \<Rightarrow> Inl TypeError
      | JStr s \<Rightarrow> Inr (if i < length s then Some [s ! i] else None)
      | JPair a b \<Rightarrow> Inr (if i = 0 then Some a else if i = 1 then Some b else None))"

text \<open>The body of the loop of \<open>resolveImports\<close>: the new value of the alias.\<close>

definition resolveRequest :: "registry \<Rightarrow> jsval \<Rightarrow> js_error + jsval" where
  "resolveRequest reg request =
     (case js_index request 0 of
        Inl err \<Rightarrow> Inl err
      | Inr file \<Rightarrow>
          (case (case file of None \<Rightarrow> None | Some f \<Rightarrow> fst (getFileInfo reg f False)) of
             None \<Rightarrow> Inr JNull
           | Some importFrom \<Rightarrow>
               (case js_index request 1 of
                  Inl err \<Rightarrow> Inl err
                | Inr exported \<Rightarrow>
                    (let importName = (case exported of
                                         None \<Rightarrow> ''*''
                                       | Some p \<Rightarrow> if p = [] then ''*'' else p)
                     in case get_truthy (exports importFrom) importName of
                          None \<Rightarrow> Inr JNull
                        | Some longname \<Rightarrow> Inr (JStr longname)))))"

fun resolveLoop :: "registry \<Rightarrow> (string \<times> jsval) list \<Rightarrow> (string \<times> jsval) list \<Rightarrow>
    js_error + (string \<times> jsval) list" where
  "resolveLoop reg [] importAliases = Inr importAliases"
| "resolveLoop reg ((name, request) # entries) importAliases =
     (case resolveRequest reg request of
        Inl err \<Rightarrow> Inl err
      | Inr v \<Rightarrow> resolveLoop reg entries (AList.update name v importAliases))"

definition resolveImports :: "registry \<Rightarrow> FileInfo \<Rightarrow> js_error + FileInfo" where
  "resolveImports reg fileinfo =
     (let importAliases = localImportAliases fileinfo in
      if importAliases = [] then Inr fileinfo
      else (case resolveLoop reg importAliases importAliases of
              Inl err \<Rightarrow> Inl err
            | Inr aliases \<Rightarrow> Inr (fileinfo\<lparr>localImportAliases := aliases\<rparr>)))"

section \<open>Rewriting the types of a doclet\<close>

lemma rx_exec_Some:
  "rx_exec r s = Some (pre, rest, cs) \<Longrightarrow>
     \<exists>t sts. s = pre @ t \<and> rx_match r (t, Map.empty) = (rest, cs) # sts"
proof (induction s arbitrary: pre)
  case Nil
  then show ?case by (auto split: list.splits)
next
  case (Cons x xs)
  show ?case
  proof (cases "rx_match r (x # xs, Map.empty)")
    case Nil
    with Cons.prems obtain pre' where e: "rx_exec r xs = Some (pre', rest, cs)"
      and p: "pre = x # pre'" by auto
    from Cons.IH[OF e] p show ?thesis by auto
  next
    case (Cons st sts)
    with Cons.prems show ?thesis by auto
  qed
qed

lemma rx_match_Cls_iff:
  "st' \<in> set (rx_match (Cls P) st) \<longleftrightarrow> (\<exists>x. fst st = x # fst st' \<and> P x \<and> snd st' = snd st)"
  by (cases st; cases st') (auto split: list.splits)

lemma rx_match_Lit_iff:
  "st' \<in> set (rx_match (Lit c) st) \<longleftrightarrow> (fst st = c # fst st' \<and> snd st' = snd st)"
  by (cases st; cases st') (auto split: list.splits)

lemma rx_match_Seq_iff:
  "st' \<in> set (rx_match (Seq a b) st) \<longleftrightarrow> (\<exists>mid \<in> set (rx_match a st). st' \<in> set (rx_match b mid))"
  by (cases st) auto

lemma rx_match_Opt_iff:
  "st' \<in> set (rx_match (Opt a) st) \<longleftrightarrow> st' \<in> set (rx_match a st) \<or> st' = st"
  by (cases st) auto

lemma rx_match_Grp_iff:
  "st' \<in> set (rx_match (Grp k a) st) \<longleftrightarrow>
     (\<exists>mid \<in> set (rx_match a st). st' = (fst mid, (snd mid)(k \<mapsto> take (length (fst st) - length (fst mid)) (fst st))))"
  by (cases st) auto

lemma rx_match_Eol_iff:
  "st' \<in> set (rx_match Eol st) \<longleftrightarrow> st' = st \<and> fst st = []"
  by (cases st) auto

lemma rx_match_Star_Cls_caps:
  "st' \<in> set (rx_match (Star (Cls P)) st) \<Longrightarrow> snd st' = snd st"
proof (induction "Star (Cls P)" st arbitrary: st' rule: rx_match.induct)
  case (4 inp cs)
  show ?case
  proof (cases "st' = (inp, cs)")
    case True
    then show ?thesis by simp
  next
    case False
    with "4.prems" obtain mid where mid: "mid \<in> set (rx_match (Cls P) (inp, cs))"
      and lt: "length (fst mid) < length inp"
      and st': "st' \<in> set (rx_match (Star (Cls P)) mid)"
      by (auto split: if_splits)
    from "4.hyps"[OF mid lt st'] mid show ?thesis by (auto simp: rx_match_Cls_iff)
  qed
qed

declare rx_match.simps [simp del]

lemma typeMatchRx_member:
  assumes "(rest, cs) \<in> set (rx_match typeMatchRx (t, Map.empty))" and "cs 2 = Some g"
  shows "length g < length t"
proof -
  let ?G = "Seq (Cls isDot) (Seq (Lit CHR ''<'') (Seq (Grp 2 (Star (Cls isDot))) (Lit CHR ''>'')))"
  from assms(1) obtain mid1 mid2 where
    m1: "mid1 \<in> set (rx_match (Grp 1 (Plus rxTypeChar)) (t, Map.empty))" and
    m2: "mid2 \<in> set (rx_match (Opt ?G) mid1)" and
    m3: "(rest, cs) \<in> set (rx_match Eol mid2)"
    unfolding typeMatchRx_def rxGeneric_def seqs.simps rx_match_Seq_iff by blast
  from m3 have cs: "cs = snd mid2" by (auto simp: rx_match_Eol_iff)
  let ?T = "Cls isTypeChar"
  from m1 obtain x where x0: "x \<in> set (rx_match (Seq ?T (Star ?T)) (t, Map.empty))"
    and mid1: "mid1 = (fst x, (snd x)(1 \<mapsto> take (length t - length (fst x)) t))"
    unfolding rx_match_Grp_iff Plus_def rxTypeChar_def by auto
  from x0 obtain m0 where m0: "m0 \<in> set (rx_match ?T (t, Map.empty))"
    and x: "x \<in> set (rx_match (Star ?T) m0)"
    unfolding rx_match_Seq_iff by blast
  from m0 have "snd m0 = Map.empty" by (auto simp: rx_match_Cls_iff)
  with rx_match_Star_Cls_caps[OF x] have "snd x = Map.empty" by simp
  with mid1 have c1: "snd mid1 2 = None" by simp
  from rx_match_suffix[OF m1] have l1: "length (fst mid1) \<le> length t" by auto
  from m2 c1 cs assms(2) have "mid2 \<in> set (rx_match ?G mid1)"
    by (auto simp: rx_match_Opt_iff)
  then obtain a b c where a: "a \<in> set (rx_match (Cls isDot) mid1)"
    and b: "b \<in> set (rx_match (Lit CHR ''<'') a)"
    and c: "c \<in> set (rx_match (Grp 2 (Star (Cls isDot))) b)"
    and d: "mid2 \<in> set (rx_match (Lit CHR ''>'') c)"
    unfolding rx_match_Seq_iff by blast
  from d have "snd mid2 = snd c" by (simp add: rx_match_Lit_iff)
  moreover from c obtain y where "c = (fst y, (snd y)(2 \<mapsto> take (length (fst b) - length (fst y)) (fst b)))"
    unfolding rx_match_Grp_iff by blast
  ultimately have "g = take (length (fst b) - length (fst y)) (fst b)" using cs assms(2) by simp
  then have "length g \<le> length (fst b)" by simp
  moreover from b have "length (fst b) < length (fst a)" by (auto simp: rx_match_Lit_iff)
  moreover from a have "length (fst a) < length (fst mid1)" by (auto simp: rx_match_Cls_iff)
  ultimately show ?thesis using l1 by simp
qed

lemma typeMatch_shorter:
  assumes "typeMatch s = Some (m1, Some g)"
  shows "length g < length s"
proof -
  from assms obtain pre rest cs where e: "rx_exec typeMatchRx s = Some (pre, rest, cs)"
    and g: "cs 2 = Some g"
    by (auto simp: typeMatch_def)
  from rx_exec_Some[OF e] obtain t sts where s: "s = pre @ t"
    and m: "rx_match typeMatchRx (t, Map.empty) = (rest, cs) # sts" by blast
  from m have "(rest, cs) \<in> set (rx_match typeMatchRx (t, Map.empty))" by simp
  from typeMatchRx_member[OF this g] s show ?thesis by simp
qed


text \<open>
  What \<^verbatim>\<open>actual.map\<close> puts in place of a name: the long name of a declaration of the file,
  else the value of an alias whatever it is, else the name.
\<close>

definition substName :: "(string \<times> jsval) list \<Rightarrow> (string option \<times> string) list \<Rightarrow> string \<Rightarrow> jsval" where
  "substName aliases localNames t =
     (case map_of localNames (Some t) of
        Some l \<Rightarrow> JStr l
      | None \<Rightarrow> (case map_of aliases t of Some v \<Rightarrow> v | None \<Rightarrow> JStr t))"

text \<open>
  How \<^verbatim>\<open>Array.prototype.join\<close> prints an element: \<^verbatim>\<open>null\<close> as the empty string, an array
  as its elements joined by a comma.
\<close>

definition joinStr :: "jsval \<Rightarrow> string" where
  "joinStr v = (case v of JStr s \<Rightarrow> s | JNull \<Rightarrow> [] | JPair a b \<Rightarrow> a @ '','' @ b)"

text \<open>
  The name list of a type expression, rewritten: \<^verbatim>\<open>match[1]\<close> split at the commas, every
  part trimmed and substituted, and the parts joined with a comma and a space.
\<close>

definition rewriteNames :: "(string \<times> jsval) list \<Rightarrow> (string option \<times> string) list \<Rightarrow> string \<Rightarrow> string" where
  "rewriteNames aliases localNames names =
     join '', '' (map joinStr (map (substName aliases localNames)
       (map trim (split_on CHR '','' names))))"

function replaceTypes :: "(string \<times> jsval) list \<Rightarrow> (string option \<times> string) list \<Rightarrow>
    doclet_meta \<Rightarrow> string \<Rightarrow> js_error + string" where
  "replaceTypes aliases localNames meta name =
     (case typeMatch name of
        None \<Rightarrow> Inl (ParseError (m_filename meta) (m_lineno meta))
      | Some (names, extra) \<Rightarrow>
          (let actual = rewriteNames aliases localNames names in
           case extra of
             None \<Rightarrow> Inr actual
           | Some ex \<Rightarrow>
               if ex = [] then Inr actual
               else (case replaceTypes aliases localNames meta ex of
                       Inl err \<Rightarrow> Inl err
                     | Inr inner \<Rightarrow> Inr (actual @ ''.<'' @ inner @ ''>''))))"
  by pat_completeness auto
termination
  by (relation "measure (\<lambda>(aliases, localNames, meta, name). length name)")
    (auto dest: typeMatch_shorter)

declare replaceTypes.simps [simp del]

text \<open>Loops that stop at the first exception.\<close>

fun mapE :: "('a \<Rightarrow> 'e + 'b) \<Rightarrow> 'a list \<Rightarrow> 'e + 'b list" where
  "mapE f [] = Inr []"
| "mapE f (x # xs) =
     (case f x of
        Inl err \<Rightarrow> Inl err
      | Inr y \<Rightarrow> (case mapE f xs of Inl err \<Rightarrow> Inl err | Inr ys \<Rightarrow> Inr (y # ys)))"

text \<open>A field that may be absent: \<^verbatim>\<open>if (x) { ... }\<close>.\<close>

definition optE :: "('a \<Rightarrow> 'e + 'b) \<Rightarrow> 'a option \<Rightarrow> 'e + 'b option" where
  "optE f x =
     (case x of
        None \<Rightarrow> Inr None
      | Some v \<Rightarrow> (case f v of Inl err \<Rightarrow> Inl err | Inr r \<Rightarrow> Inr (Some r)))"

definition replaceAllTypes :: "(string \<times> jsval) list \<Rightarrow> (string option \<times> string) list \<Rightarrow>
    doclet_meta \<Rightarrow> type_names \<Rightarrow> js_error + type_names" where
  "replaceAllTypes aliases localNames meta type =
     optE (mapE (replaceTypes aliases localNames meta)) type"

definition modifyDoclet :: "path_api \<Rightarrow> registry \<Rightarrow> doclet \<Rightarrow> js_error + doclet" where
  "modifyDoclet P reg doclet =
     (case d_meta doclet of
        None \<Rightarrow> Inr doclet
      | Some meta \<Rightarrow>
          (let fname = p_resolve P (m_path meta) (m_filename meta) in
           case fst (getFileInfo reg fname False) of
             None \<Rightarrow> Inr doclet
           | Some fileinfo \<Rightarrow>
               (let aliases = localImportAliases fileinfo;
                    localNames = longnamesByDeclaration fileinfo
                in case optE (mapE (replaceTypes aliases localNames meta)) (d_augments doclet) of
                     Inl err \<Rightarrow> Inl err
                   | Inr augments' \<Rightarrow>
                 (case optE (mapE (replaceAllTypes aliases localNames meta))
                         (d_properties doclet) of
                     Inl err \<Rightarrow> Inl err
                   | Inr properties' \<Rightarrow>
                 (case optE (mapE (replaceAllTypes aliases localNames meta))
                         (d_params doclet) of
                     Inl err \<Rightarrow> Inl err
                   | Inr params' \<Rightarrow>
                 (case optE (mapE (replaceAllTypes aliases localNames meta))
                         (d_returns doclet) of
                     Inl err \<Rightarrow> Inl err
                   | Inr returns' \<Rightarrow>
                       Inr (doclet\<lparr>d_augments := augments', d_properties := properties',
                              d_params := params', d_returns := returns'\<rparr>)))))))"

section \<open>The resolution barrier\<close>

text \<open>
  \<^verbatim>\<open>for (const info of fileinfoByFile.values()) f(info)\<close>, where \<open>f\<close> mutates \<open>info\<close> and may
  read the registry: the keys are visited in order, and the new value of each object is
  stored before the next one is visited.
\<close>

fun forEachInfo :: "(registry \<Rightarrow> FileInfo \<Rightarrow> js_error + FileInfo) \<Rightarrow> string list \<Rightarrow>
    registry \<Rightarrow> js_error + registry" where
  "forEachInfo f [] reg = Inr reg"
| "forEachInfo f (k # ks) reg =
     (case map_of reg k of
        None \<Rightarrow> forEachInfo f ks reg
      | Some info \<Rightarrow>
          (case f reg info of
             Inl err \<Rightarrow> Inl err
           | Inr info' \<Rightarrow> forEachInfo f ks (AList.update k info' reg)))"

text \<open>The first two loops of \<open>processingComplete\<close>.\<close>

definition barrier :: "registry \<Rightarrow> js_error + registry" where
  "barrier reg =
     (case forEachInfo (\<lambda>_. indexExports) (map fst reg) reg of
        Inl err \<Rightarrow> Inl err
      | Inr reg1 \<Rightarrow> forEachInfo resolveImports (map fst reg1) reg1)"

text \<open>
  The handler of the event \<^verbatim>\<open>processingComplete\<close>: the registry after the barrier and the
  doclets of \<^verbatim>\<open>e.doclets\<close>, rewritten.
\<close>

definition processingComplete :: "path_api \<Rightarrow> registry \<Rightarrow> doclet list \<Rightarrow>
    js_error + registry \<times> doclet list" where
  "processingComplete P reg doclets =
     (case barrier reg of
        Inl err \<Rightarrow> Inl err
      | Inr reg' \<Rightarrow>
          (case mapE (modifyDoclet P reg') doclets of
             Inl err \<Rightarrow> Inl err
           | Inr doclets' \<Rightarrow> Inr (reg', doclets')))"

section \<open>A run of the plugin\<close>

text \<open>
  The host delivers the files one at a time: the source of a file to \<open>beforeParse\<close>, then
  every doclet of the file to \<open>newDoclet\<close>. When all files are parsed, it calls
  \<open>processingComplete\<close> with all doclets. A file of a run is its name, its source and its
  doclets; the registry is empty when the run starts.
\<close>

type_synonym file_input = "string \<times> string \<times> doclet list"

fun newDoclets :: "path_api \<Rightarrow> registry \<Rightarrow> doclet list \<Rightarrow> js_error + registry" where
  "newDoclets P reg [] = Inr reg"
| "newDoclets P reg (d # ds) =
     (case newDoclet P reg d of Inl err \<Rightarrow> Inl err | Inr reg' \<Rightarrow> newDoclets P reg' ds)"

definition parseFile :: "path_api \<Rightarrow> registry \<Rightarrow> file_input \<Rightarrow> js_error + registry" where
  "parseFile P reg file =
     (case file of (fname, src, doclets) \<Rightarrow>
        newDoclets P (fst (beforeParse P reg \<lparr>e_filename = fname, e_source = src\<rparr>)) doclets)"

fun parseFiles :: "path_api \<Rightarrow> registry \<Rightarrow> file_input list \<Rightarrow> js_error + registry" where
  "parseFiles P reg [] = Inr reg"
| "parseFiles P reg (file # files) =
     (case parseFile P reg file of Inl err \<Rightarrow> Inl err | Inr reg' \<Rightarrow> parseFiles P reg' files)"

definition run :: "path_api \<Rightarrow> file_input list \<Rightarrow> js_error + registry \<times> doclet list" where
  "run P files =
     (case parseFiles P [] files of
        Inl err \<Rightarrow> Inl err
      | Inr reg \<Rightarrow> processingComplete P reg (concat (map (\<lambda>file. snd (snd file)) files)))"

section \<open>What the type expression matches\<close>

lemma rx_match_Star_Cls:
  "rx_match (Star (Cls P)) (inp, cs) =
     map (\<lambda>k. (drop k inp, cs)) (rev [0..<Suc (length (takeWhile P inp))])"
proof (induction inp)
  case Nil
  then show ?case by (simp add: rx_match.simps(2,4))
next
  case (Cons x xs)
  show ?case
  proof (cases "P x")
    case False
    then show ?thesis by (simp add: rx_match.simps(2,4))
  next
    case True
    have "[0..<Suc (Suc (length (takeWhile P xs)))] = 0 # map Suc [0..<Suc (length (takeWhile P xs))]"
      by (metis map_Suc_upt upt_conv_Cons zero_less_Suc)
    moreover have "rx_match (Star (Cls P)) (x # xs, cs) =
        rx_match (Star (Cls P)) (xs, cs) @ [(x # xs, cs)]"
      using True by (subst rx_match.simps(4)) (simp add: rx_match.simps(2))
    ultimately show ?thesis using True Cons.IH
      by (simp add: rev_map comp_def del: upt_Suc)
  qed
qed

lemma rx_match_Plus_Cls_hd:
  assumes "b \<noteq> []" "\<forall>c\<in>set b. P c" "r = [] \<or> \<not> P (hd r)"
  shows "\<exists>sts. rx_match (Grp k (Plus (Cls P))) (b @ r, cs) = (r, cs(k \<mapsto> b)) # sts"
proof -
  from assms(1) obtain x b' where b: "b = x # b'" by (cases b) auto
  with assms have tw: "takeWhile P (b' @ r) = b'"
    by (cases r) (auto simp: takeWhile_append2)
  have "rev [0..<Suc (length b')] = length b' # rev [0..<length b']" by simp
  with b assms(2) tw show ?thesis
    by (simp add: Plus_def rx_match.simps(2,3,7) rx_match_Star_Cls del: upt_Suc)
qed


lemma typeMatchRx_unfold:
  "typeMatchRx = Seq (Grp 1 (Plus (Cls isTypeChar))) (Seq (Opt rxGeneric) Eol)"
  by (simp add: typeMatchRx_def rxTypeChar_def)

lemma rx_match_tail_Nil:
  "rx_match (Seq (Opt rxGeneric) Eol) ([], cs) = [([], cs)]"
  by (simp add: rxGeneric_def rx_match.simps(2,3,6,8))

lemma rx_match_tail_generic:
  assumes "\<forall>c\<in>set g. isDot c"
  shows "\<exists>sts. rx_match (Seq (Opt rxGeneric) Eol) (''.<'' @ g @ ''>'', cs) = ([], cs(2 \<mapsto> g)) # sts"
proof -
  have dots: "isDot CHR ''.''" "isDot CHR ''>''"
    by (simp_all add: isDot_def isLineTerminator_def)
  from assms dots have tw: "takeWhile isDot (g @ ''>'') = g @ ''>''"
    by (simp add: takeWhile_eq_all_conv)
  have up: "rev [0..<Suc (Suc (length g))] = Suc (length g) # length g # rev [0..<length g]"
    by simp
  show ?thesis
    by (simp add: rxGeneric_def rx_match.simps(1,2,3,6,7,8) rx_match_Star_Cls tw up dots del: upt_Suc)
qed

lemma rx_match_Seq_hd:
  "rx_match a st = m # ms \<Longrightarrow> rx_match b m = h # hs \<Longrightarrow>
     rx_match (Seq a b) st = h # hs @ concat (map (rx_match b) ms)"
  by (cases st) (simp add: rx_match.simps(3))

lemma typeMatch_names:
  assumes "s \<noteq> []" "\<forall>c\<in>set s. isTypeChar c"
  shows "typeMatch s = Some (s, None)"
proof -
  from rx_match_Plus_Cls_hd[OF assms, of "[]" 1 Map.empty]
  obtain sts where "rx_match (Grp 1 (Plus (Cls isTypeChar))) (s, Map.empty) = ([], [1 \<mapsto> s]) # sts"
    by auto
  from rx_match_Seq_hd[OF this rx_match_tail_Nil]
  have m: "rx_match typeMatchRx (s, Map.empty) =
      ([], [1 \<mapsto> s]) # concat (map (rx_match (Seq (Opt rxGeneric) Eol)) sts)"
    by (simp add: typeMatchRx_unfold)
  from assms(1) obtain x xs where "s = x # xs" by (cases s) auto
  with m show ?thesis by (simp add: typeMatch_def grp_def)
qed

lemma typeMatch_generic:
  assumes "b \<noteq> []" "\<forall>c\<in>set b. isTypeChar c" "\<forall>c\<in>set g. isDot c"
  shows "typeMatch (b @ ''.<'' @ g @ ''>'') = Some (b, Some g)"
proof -
  have nd: "\<not> isTypeChar CHR ''.''"
    by (simp add: isTypeChar_def isWordChar_def isSpaceChar_def)
  from rx_match_Plus_Cls_hd[OF assms(1,2), of "''.<'' @ g @ ''>''" 1 Map.empty] nd
  obtain sts where g1: "rx_match (Grp 1 (Plus (Cls isTypeChar))) (b @ ''.<'' @ g @ ''>'', Map.empty)
      = (''.<'' @ g @ ''>'', [1 \<mapsto> b]) # sts"
    by auto
  from rx_match_tail_generic[OF assms(3), of "[1 \<mapsto> b]"]
  obtain sts' where g2: "rx_match (Seq (Opt rxGeneric) Eol) (''.<'' @ g @ ''>'', [1 \<mapsto> b])
      = ([], [1 \<mapsto> b, 2 \<mapsto> g]) # sts'"
    by auto
  from rx_match_Seq_hd[OF g1 g2]
  have m: "rx_match typeMatchRx (b @ ''.<'' @ g @ ''>'', Map.empty) =
      ([], [1 \<mapsto> b, 2 \<mapsto> g]) # sts' @ concat (map (rx_match (Seq (Opt rxGeneric) Eol)) sts)"
    by (simp add: typeMatchRx_unfold)
  from assms(1) obtain x xs where "b = x # xs" by (cases b) auto
  with m show ?thesis by (simp add: typeMatch_def grp_def)
qed

section \<open>The registry\<close>

lemma getFileInfo_distinct:
  "distinct (map fst reg) \<Longrightarrow> distinct (map fst (snd (getFileInfo reg fname getNew)))"
  by (simp add: getFileInfo_def Let_def distinct_update split: option.splits)

lemma getFileInfos_distinct:
  "distinct (map fst reg) \<Longrightarrow> distinct (map fst (getFileInfos reg calls))"
  by (induction reg calls rule: getFileInfos.induct) (simp_all add: getFileInfo_distinct)

lemma records_for_distinct:
  "distinct (map fst reg) \<Longrightarrow> records_for fname reg \<le> 1"
  by (induction reg) (auto simp: records_for_def filter_empty_conv image_iff)

text \<open>
  Claim C9 (registry idempotence). A plain lookup returns the record of the path, if any,
  and leaves the registry as it is. A request in create-if-absent mode returns a record,
  which is then the one the registry holds for the path; asking again, in either mode,
  returns that same record and changes nothing. The request returns the existing record
  where there is one and appends a fresh one otherwise. After any sequence of calls,
  starting from the empty registry, the registry holds at most one record for a path.
\<close>

theorem getFileInfo_registry_idempotent:
  "snd (getFileInfo reg path False) = reg
   \<and> fst (getFileInfo reg path False) = map_of reg path
   \<and> (case getFileInfo reg path True of (r1, reg1) \<Rightarrow>
         r1 \<noteq> None \<and> map_of reg1 path = r1
         \<and> getFileInfo reg1 path True = (r1, reg1)
         \<and> getFileInfo reg1 path False = (r1, reg1))
   \<and> getFileInfo reg path True =
       (case map_of reg path of
          Some fi \<Rightarrow> (Some fi, reg)
        | None \<Rightarrow> (Some (newFileInfo path), reg @ [(path, newFileInfo path)]))
   \<and> records_for path (getFileInfos [] calls) \<le> 1"
proof -
  have upd: "map_of reg path = None \<Longrightarrow> AList.update path v reg = reg @ [(path, v)]" for v
    by (induction reg) auto
  have "distinct (map fst ([] :: registry))" by simp
  then have "records_for path (getFileInfos [] calls) \<le> 1"
    by (intro records_for_distinct getFileInfos_distinct)
  then show ?thesis
    by (auto simp: getFileInfo_def Let_def update_conv' upd split: option.splits)
qed

section \<open>Rewriting type expressions\<close>

text \<open>The generic notation of jsdoc: \<^verbatim>\<open>Outer.<Inner>\<close>.\<close>

definition wrapGeneric :: "string \<Rightarrow> string \<Rightarrow> string" where
  "wrapGeneric outer inner = outer @ ''.<'' @ inner @ ''>''"

lemma replaceTypes_names:
  assumes "s \<noteq> []" "\<forall>c\<in>set s. isTypeChar c"
  shows "replaceTypes aliases localNames meta s = Inr (rewriteNames aliases localNames s)"
  by (subst replaceTypes.simps) (simp add: typeMatch_names[OF assms])

lemma replaceTypes_generic:
  assumes "b \<noteq> []" "\<forall>c\<in>set b. isTypeChar c" "\<forall>c\<in>set g. isDot c" "g \<noteq> []"
  shows "replaceTypes aliases localNames meta (wrapGeneric b g) =
     (case replaceTypes aliases localNames meta g of
        Inl err \<Rightarrow> Inl err
      | Inr inner \<Rightarrow> Inr (wrapGeneric (rewriteNames aliases localNames b) inner))"
  unfolding wrapGeneric_def
  using typeMatch_generic[OF assms(1-3)] assms(4)
  by (subst replaceTypes.simps) simp

lemma isDot_brackets: "isDot CHR ''.''" "isDot CHR ''<''" "isDot CHR ''>''"
  by (simp_all add: isDot_def isLineTerminator_def)

lemma replaceTypes_nested:
  assumes "\<forall>outer\<in>set outers. outer \<noteq> [] \<and> (\<forall>c\<in>set outer. isTypeChar c \<and> isDot c)"
    and "inner \<noteq> []" and "\<forall>c\<in>set inner. isDot c"
    and "replaceTypes aliases localNames meta inner = Inr inner'"
  shows "replaceTypes aliases localNames meta (foldr wrapGeneric outers inner) =
           Inr (foldr wrapGeneric (map (rewriteNames aliases localNames) outers) inner')
         \<and> foldr wrapGeneric outers inner \<noteq> []
         \<and> (\<forall>c\<in>set (foldr wrapGeneric outers inner). isDot c)"
  using assms(1)
proof (induction outers)
  case Nil
  with assms show ?case by simp
next
  case (Cons outer outers)
  then have IH: "replaceTypes aliases localNames meta (foldr wrapGeneric outers inner) =
           Inr (foldr wrapGeneric (map (rewriteNames aliases localNames) outers) inner')"
    and ne: "foldr wrapGeneric outers inner \<noteq> []"
    and dots: "\<forall>c\<in>set (foldr wrapGeneric outers inner). isDot c"
    by auto
  from Cons.prems have o: "outer \<noteq> []" "\<forall>c\<in>set outer. isTypeChar c" "\<forall>c\<in>set outer. isDot c"
    by auto
  from replaceTypes_generic[OF o(1,2) dots ne, of aliases localNames meta] IH
  have "replaceTypes aliases localNames meta (foldr wrapGeneric (outer # outers) inner) =
      Inr (foldr wrapGeneric (map (rewriteNames aliases localNames) (outer # outers)) inner')"
    by simp
  moreover have "foldr wrapGeneric (outer # outers) inner \<noteq> []"
    by (simp add: wrapGeneric_def)
  moreover have "\<forall>c\<in>set (foldr wrapGeneric (outer # outers) inner). isDot c"
    using o(3) dots by (auto simp: wrapGeneric_def isDot_brackets)
  ultimately show ?case by blast
qed

lemma rewriteNames_unchanged:
  assumes "\<forall>t\<in>set (map trim (split_on CHR '','' s)).
             map_of localNames (Some t) = None \<and> map_of aliases t = None"
  shows "rewriteNames aliases localNames s = join '', '' (map trim (split_on CHR '','' s))"
proof -
  have "map joinStr (map (substName aliases localNames) (map trim (split_on CHR '','' s)))
        = map trim (split_on CHR '','' s)"
    using assms by (induction "split_on CHR '','' s") (auto simp: substName_def joinStr_def)
  then show ?thesis unfolding rewriteNames_def by (rule arg_cong)
qed

lemma trim_decomp:
  "s = takeWhile isSpaceChar s @ trim s @ rev (takeWhile isSpaceChar (rev (dropWhile isSpaceChar s)))"
proof -
  let ?u = "dropWhile isSpaceChar s"
  have "rev (takeWhile isSpaceChar (rev ?u) @ dropWhile isSpaceChar (rev ?u))
      = rev (dropWhile isSpaceChar (rev ?u)) @ rev (takeWhile isSpaceChar (rev ?u))"
    by (rule rev_append)
  then have "rev (rev ?u) = rev (dropWhile isSpaceChar (rev ?u)) @ rev (takeWhile isSpaceChar (rev ?u))"
    by (simp only: takeWhile_dropWhile_id)
  then have "?u = trim s @ rev (takeWhile isSpaceChar (rev ?u))"
    by (simp only: rev_rev_ident trim_def)
  moreover have "s = takeWhile isSpaceChar s @ ?u" by simp
  ultimately show ?thesis by metis
qed

lemma trim_spec:
  "\<exists>ws1 ws2. s = ws1 @ trim s @ ws2
     \<and> (\<forall>c\<in>set ws1. isSpaceChar c) \<and> (\<forall>c\<in>set ws2. isSpaceChar c)
     \<and> (trim s \<noteq> [] \<longrightarrow> \<not> isSpaceChar (hd (trim s)) \<and> \<not> isSpaceChar (last (trim s)))"
proof -
  let ?u = "dropWhile isSpaceChar s"
  let ?ws1 = "takeWhile isSpaceChar s"
  let ?ws2 = "rev (takeWhile isSpaceChar (rev ?u))"
  have d: "s = ?ws1 @ trim s @ ?ws2" by (rule trim_decomp)
  have w1: "\<forall>c\<in>set ?ws1. isSpaceChar c" by (auto dest: set_takeWhileD)
  have w2: "\<forall>c\<in>set ?ws2. isSpaceChar c" by (auto dest: set_takeWhileD)
  have e: "\<not> isSpaceChar (hd (trim s)) \<and> \<not> isSpaceChar (last (trim s))" if ne: "trim s \<noteq> []"
  proof
    from ne have ne': "dropWhile isSpaceChar (rev ?u) \<noteq> []" by (simp add: trim_def)
    from d have u: "?u = trim s @ ?ws2"
      by (metis append_same_eq append_eq_append_conv takeWhile_dropWhile_id same_append_eq)
    with ne have "hd ?u = hd (trim s)" by (metis hd_append2)
    moreover from u ne have "?u \<noteq> []" by (metis append_is_Nil_conv)
    then have "\<not> isSpaceChar (hd ?u)" by (rule hd_dropWhile)
    ultimately show "\<not> isSpaceChar (hd (trim s))" by simp
    have "last (trim s) = hd (dropWhile isSpaceChar (rev ?u))"
      using ne' by (simp add: trim_def last_rev)
    moreover from ne' have "\<not> isSpaceChar (hd (dropWhile isSpaceChar (rev ?u)))" by (rule hd_dropWhile)
    ultimately show "\<not> isSpaceChar (last (trim s))" by simp
  qed
  from d w1 w2 e show ?thesis by blast
qed

lemma split_on_nonempty: "split_on d s \<noteq> []"
  by (induction s) (auto split: list.splits)

lemma join_Cons_nonempty: "ys \<noteq> [] \<Longrightarrow> join sep (x # ys) = x @ sep @ join sep ys"
  by (cases ys) auto

lemma split_on_join: "join [d] (split_on d s) = s"
proof (induction s)
  case Nil
  show ?case by simp
next
  case (Cons c cs)
  obtain h t where ht: "split_on d cs = h # t" using split_on_nonempty[of d cs] by (cases "split_on d cs") auto
  show ?case
  proof (cases "c = d")
    case True
    with Cons show ?thesis by (simp add: join_Cons_nonempty split_on_nonempty)
  next
    case False
    with Cons ht show ?thesis by (cases t) auto
  qed
qed

lemma split_on_no_sep: "p \<in> set (split_on d s) \<Longrightarrow> d \<notin> set p"
proof (induction s arbitrary: p)
  case Nil
  then show ?case by simp
next
  case (Cons c cs)
  obtain h t where ht: "split_on d cs = h # t" using split_on_nonempty[of d cs] by (cases "split_on d cs") auto
  with Cons show ?case by (auto split: if_splits)
qed

text \<open>
  Claim C10 (the name list is normalised). Whenever the rewriter returns, its result is the
  name list that the expression matched, split at the commas, every part trimmed and
  substituted, and joined again with a comma and a space; where a generic argument that is
  not empty was matched, the rewritten argument follows in its brackets. An expression of
  name-list characters is always rewritten so, and when no part of it is a declared name or
  an alias it comes back as its trimmed parts joined with a comma and a space: nothing is
  substituted, and the white space around the commas has changed. Splitting yields the
  pieces between the commas: they hold no comma, and joined with a comma they are the
  list again. Trimming a part removes white space at its two ends and nothing else: what
  is left neither starts nor ends with white space.
\<close>

theorem replaceTypes_normalises_commas:
  "(\<forall>r. replaceTypes aliases localNames meta name = Inr r \<longrightarrow>
      (\<exists>names extra. typeMatch name = Some (names, extra) \<and>
         (let actual = join '', '' (map joinStr (map (substName aliases localNames)
                         (map trim (split_on CHR '','' names))))
          in case extra of
               None \<Rightarrow> r = actual
             | Some ex \<Rightarrow>
                 if ex = [] then r = actual
                 else (\<exists>inner. replaceTypes aliases localNames meta ex = Inr inner
                         \<and> r = actual @ ''.<'' @ inner @ ''>''))))
   \<and> (name \<noteq> [] \<and> (\<forall>c\<in>set name. isTypeChar c) \<longrightarrow>
        replaceTypes aliases localNames meta name =
          Inr (join '', '' (map joinStr (map (substName aliases localNames)
                         (map trim (split_on CHR '','' name))))))
   \<and> (name \<noteq> [] \<and> (\<forall>c\<in>set name. isTypeChar c) \<and>
        (\<forall>t\<in>set (map trim (split_on CHR '','' name)).
            map_of localNames (Some t) = None \<and> map_of aliases t = None) \<longrightarrow>
        replaceTypes aliases localNames meta name =
          Inr (join '', '' (map trim (split_on CHR '','' name))))
   \<and> split_on CHR '','' name \<noteq> []
   \<and> join '','' (split_on CHR '','' name) = name
   \<and> (\<forall>p\<in>set (split_on CHR '','' name). CHR '','' \<notin> set p)
   \<and> (\<forall>p. \<exists>ws1 ws2. p = ws1 @ trim p @ ws2
          \<and> (\<forall>c\<in>set ws1. isSpaceChar c) \<and> (\<forall>c\<in>set ws2. isSpaceChar c)
          \<and> (trim p \<noteq> [] \<longrightarrow> \<not> isSpaceChar (hd (trim p)) \<and> \<not> isSpaceChar (last (trim p))))"
proof (intro conjI allI impI ballI)
  fix r assume r: "replaceTypes aliases localNames meta name = Inr r"
  show "\<exists>names extra. typeMatch name = Some (names, extra) \<and>
         (let actual = join '', '' (map joinStr (map (substName aliases localNames)
                         (map trim (split_on CHR '','' names))))
          in case extra of
               None \<Rightarrow> r = actual
             | Some ex \<Rightarrow>
                 if ex = [] then r = actual
                 else (\<exists>inner. replaceTypes aliases localNames meta ex = Inr inner
                         \<and> r = actual @ ''.<'' @ inner @ ''>''))"
  proof (cases "typeMatch name")
    case None
    with r show ?thesis by (subst (asm) replaceTypes.simps) simp
  next
    case (Some m)
    obtain names extra where m: "m = (names, extra)" by (cases m)
    show ?thesis
    proof (cases extra)
      case None
      with r Some m show ?thesis
        by (subst (asm) replaceTypes.simps) (simp add: rewriteNames_def)
    next
      case (Some ex)
      show ?thesis
      proof (cases "ex = []")
        case True
        with r \<open>typeMatch name = Some m\<close> m Some show ?thesis
          by (subst (asm) replaceTypes.simps) (simp add: rewriteNames_def)
      next
        case False
        with r \<open>typeMatch name = Some m\<close> m Some show ?thesis
          by (subst (asm) replaceTypes.simps)
            (auto simp: rewriteNames_def split: sum.splits)
      qed
    qed
  qed
next
  assume "name \<noteq> [] \<and> (\<forall>c\<in>set name. isTypeChar c)"
  then show "replaceTypes aliases localNames meta name =
          Inr (join '', '' (map joinStr (map (substName aliases localNames)
                         (map trim (split_on CHR '','' name)))))"
    using replaceTypes_names[of name aliases localNames meta] by (simp add: rewriteNames_def)
next
  assume a: "name \<noteq> [] \<and> (\<forall>c\<in>set name. isTypeChar c) \<and>
        (\<forall>t\<in>set (map trim (split_on CHR '','' name)).
            map_of localNames (Some t) = None \<and> map_of aliases t = None)"
  then show "replaceTypes aliases localNames meta name =
          Inr (join '', '' (map trim (split_on CHR '','' name)))"
    using replaceTypes_names[of name aliases localNames meta] rewriteNames_unchanged[of name localNames aliases]
    by simp
next
  show "split_on CHR '','' name \<noteq> []" by (rule split_on_nonempty)
next
  show "join '','' (split_on CHR '','' name) = name" by (rule split_on_join)
next
  fix p assume "p \<in> set (split_on CHR '','' name)"
  then show "CHR '','' \<notin> set p" by (rule split_on_no_sep)
next
  fix p
  show "\<exists>ws1 ws2. p = ws1 @ trim p @ ws2
          \<and> (\<forall>c\<in>set ws1. isSpaceChar c) \<and> (\<forall>c\<in>set ws2. isSpaceChar c)
          \<and> (trim p \<noteq> [] \<longrightarrow> \<not> isSpaceChar (hd (trim p)) \<and> \<not> isSpaceChar (last (trim p)))"
    by (rule trim_spec)
qed

text \<open>The \<^verbatim>\<open>meta\<close> of a doclet of \<^verbatim>\<open>/p/b.js\<close>, for the examples.\<close>

definition example_meta :: doclet_meta where
  "example_meta = \<lparr>m_path = ''/p'', m_filename = ''b.js'', m_lineno = 3,
     m_code = \<lparr>c_type = None, c_name = None, c_value = None\<rparr>\<rparr>"

lemma typeChars_eval:
  "isTypeChar CHR ''A''" "isTypeChar CHR ''B''" "isTypeChar CHR '',''" "isTypeChar CHR '' ''"
  "isSpaceChar CHR '' ''" "\<not> isSpaceChar CHR ''A''" "\<not> isSpaceChar CHR ''B''" "\<not> isSpaceChar CHR '',''"
  by (simp_all add: isTypeChar_def isWordChar_def isSpaceChar_def)

theorem replaceTypes_normalises_commas_witness:
  "replaceTypes [] [] example_meta ''A,B'' = Inr ''A, B''
   \<and> replaceTypes [] [] example_meta '' A ,  B '' = Inr ''A, B''
   \<and> replaceTypes [(''B'', JStr ''pkg.B'')] [] example_meta ''A ,B'' = Inr ''A, pkg.B''
   \<and> replaceTypes [] [] example_meta ''A ,B.<C , D>'' = Inr ''A, B.<C, D>''"
proof -
  have 1: "replaceTypes [] [] example_meta ''A,B'' = Inr ''A, B''"
    using replaceTypes_normalises_commas[of "[]" "[]" example_meta "''A,B''", THEN conjunct2, THEN conjunct2, THEN conjunct1]
    by (simp add: typeChars_eval trim_def)
  have 2: "replaceTypes [] [] example_meta '' A ,  B '' = Inr ''A, B''"
    using replaceTypes_normalises_commas[of "[]" "[]" example_meta "'' A ,  B ''", THEN conjunct2, THEN conjunct2, THEN conjunct1]
    by (simp add: typeChars_eval trim_def)
  have 3: "replaceTypes [(''B'', JStr ''pkg.B'')] [] example_meta ''A ,B'' = Inr ''A, pkg.B''"
    using replaceTypes_normalises_commas[of "[(''B'', JStr ''pkg.B'')]" "[]" example_meta "''A ,B''", THEN conjunct2, THEN conjunct1]
    by (simp add: typeChars_eval trim_def substName_def joinStr_def)
  have 4: "replaceTypes [] [] example_meta ''A ,B.<C , D>'' = Inr ''A, B.<C, D>''"
    by code_simp
  from 1 2 3 4 show ?thesis by simp
qed

lemma typeChars_Array_Foo:
  "\<forall>c\<in>set ''Array''. isTypeChar c \<and> isDot c" "\<forall>c\<in>set ''Foo''. isTypeChar c \<and> isDot c"
  by (simp_all add: isTypeChar_def isWordChar_def isDot_def isLineTerminator_def)

lemma trim_Array_Foo: "trim ''Array'' = ''Array''" "trim ''Foo'' = ''Foo''"
  by (simp_all add: trim_def isSpaceChar_def)

text \<open>
  Claim C6 (generic nesting). Take any number of outer name lists, each non-empty and made
  of name-list characters on one line, around an inner expression that is not empty, has
  no line terminator and is rewritten to \<open>inner'\<close>. The nested expression is rewritten to
  the same nesting of the rewritten outer lists around \<open>inner'\<close>, with the same brackets at
  every level. In particular, where \<^verbatim>\<open>Foo\<close> is an alias resolved to \<^verbatim>\<open>pkg.Foo\<close> and neither
  \<^verbatim>\<open>Foo\<close> nor \<^verbatim>\<open>Array\<close> is declared in the file, \<^verbatim>\<open>Array.<Array.<Foo>>\<close> becomes
  \<^verbatim>\<open>Array.<Array.<pkg.Foo>>\<close>.
\<close>

theorem replaceTypes_generic_nesting:
  "((\<forall>outer\<in>set outers. outer \<noteq> [] \<and> (\<forall>c\<in>set outer. isTypeChar c \<and> isDot c))
      \<and> inner \<noteq> [] \<and> (\<forall>c\<in>set inner. isDot c)
      \<and> replaceTypes aliases localNames meta inner = Inr inner' \<longrightarrow>
    replaceTypes aliases localNames meta (foldr wrapGeneric outers inner) =
      Inr (foldr wrapGeneric (map (rewriteNames aliases localNames) outers) inner'))
   \<and> (map_of localNames (Some ''Foo'') = None \<and> map_of aliases ''Foo'' = Some (JStr ''pkg.Foo'')
      \<and> map_of localNames (Some ''Array'') = None \<and> map_of aliases ''Array'' = None \<longrightarrow>
    replaceTypes aliases localNames meta ''Array.<Array.<Foo>>'' = Inr ''Array.<Array.<pkg.Foo>>'')"
proof (intro conjI impI)
  assume "(\<forall>outer\<in>set outers. outer \<noteq> [] \<and> (\<forall>c\<in>set outer. isTypeChar c \<and> isDot c))
      \<and> inner \<noteq> [] \<and> (\<forall>c\<in>set inner. isDot c)
      \<and> replaceTypes aliases localNames meta inner = Inr inner'"
  then show "replaceTypes aliases localNames meta (foldr wrapGeneric outers inner) =
      Inr (foldr wrapGeneric (map (rewriteNames aliases localNames) outers) inner')"
    using replaceTypes_nested[of outers inner aliases localNames meta inner'] by blast
next
  assume a: "map_of localNames (Some ''Foo'') = None \<and> map_of aliases ''Foo'' = Some (JStr ''pkg.Foo'')
      \<and> map_of localNames (Some ''Array'') = None \<and> map_of aliases ''Array'' = None"
  have foo: "replaceTypes aliases localNames meta ''Foo'' = Inr ''pkg.Foo''"
    using a replaceTypes_names[of "''Foo''" aliases localNames meta] typeChars_Array_Foo(2)
    by (simp add: rewriteNames_def substName_def joinStr_def trim_Array_Foo)
  have arr: "rewriteNames aliases localNames ''Array'' = ''Array''"
    using a by (simp add: rewriteNames_def substName_def joinStr_def trim_Array_Foo)
  have dots: "\<forall>c\<in>set ''Foo''. isDot c" using typeChars_Array_Foo(2) by blast
  have outers: "\<forall>outer\<in>set [''Array'', ''Array'']. outer \<noteq> [] \<and> (\<forall>c\<in>set outer. isTypeChar c \<and> isDot c)"
    using typeChars_Array_Foo(1) by simp
  have "foldr wrapGeneric [''Array'', ''Array''] ''Foo'' = ''Array.<Array.<Foo>>''"
    by (simp add: wrapGeneric_def)
  moreover have "foldr wrapGeneric (map (rewriteNames aliases localNames) [''Array'', ''Array'']) ''pkg.Foo''
      = ''Array.<Array.<pkg.Foo>>''"
    by (simp add: wrapGeneric_def arr)
  ultimately show "replaceTypes aliases localNames meta ''Array.<Array.<Foo>>'' = Inr ''Array.<Array.<pkg.Foo>>''"
    using replaceTypes_nested[OF outers _ dots foo] by simp
qed

theorem replaceTypes_generic_nesting_witness:
  "replaceTypes [(''Foo'', JStr ''pkg.Foo'')] [] example_meta ''Foo'' = Inr ''pkg.Foo''
   \<and> replaceTypes [(''Foo'', JStr ''pkg.Foo'')] [] example_meta (foldr wrapGeneric [''Array'', ''Array'', ''Array''] ''Foo'')
       = Inr ''Array.<Array.<Array.<pkg.Foo>>>''
   \<and> replaceTypes [(''Foo'', JStr ''pkg.Foo'')] [] example_meta ''Array.<Array.<Foo>>'' = Inr ''Array.<Array.<pkg.Foo>>''"
proof -
  have foo: "replaceTypes [(''Foo'', JStr ''pkg.Foo'')] [] example_meta ''Foo'' = Inr ''pkg.Foo''"
    by code_simp
  have arr: "rewriteNames [(''Foo'', JStr ''pkg.Foo'')] [] ''Array'' = ''Array''"
    by code_simp
  from foo typeChars_Array_Foo arr
    replaceTypes_generic_nesting[of "[''Array'', ''Array'', ''Array'']" "''Foo''"
      "[(''Foo'', JStr ''pkg.Foo'')]" "[]" example_meta "''pkg.Foo''"]
  show ?thesis by (simp add: wrapGeneric_def)
qed

section \<open>Malformed type expressions\<close>





























section \<open>Runs of two files\<close>

text \<open>
  The files of the examples live in \<^verbatim>\<open>/p\<close>. \<^verbatim>\<open>/p/a.js\<close> declares the function
  \<^verbatim>\<open>Widget\<close>, whose long name is \<^verbatim>\<open>pkg.Widget\<close>, and exports it, either as the whole module
  or as the property \<^verbatim>\<open>Widget\<close>. \<^verbatim>\<open>/p/b.js\<close> holds one statement and a function with
  one parameter, whose type has the given names.
\<close>

definition mk_meta :: "string \<Rightarrow> nat \<Rightarrow> string option \<Rightarrow> string option \<Rightarrow> string option \<Rightarrow> doclet_meta" where
  "mk_meta fname lineno ctype cname cvalue =
     \<lparr>m_path = ''/p'', m_filename = fname, m_lineno = lineno,
      m_code = \<lparr>c_type = ctype, c_name = cname, c_value = cvalue\<rparr>\<rparr>"

definition mk_doclet :: "string \<Rightarrow> string \<Rightarrow> string \<Rightarrow> string \<Rightarrow> doclet_meta \<Rightarrow>
    type_names list option \<Rightarrow> doclet" where
  "mk_doclet kind name longname scope meta params =
     \<lparr>d_kind = kind, d_name = name, d_longname = longname, d_scope = scope,
      d_meta = Some meta, d_augments = None, d_properties = None, d_params = params,
      d_returns = None\<rparr>"

definition widget_module :: file_input where
  "widget_module = (''/p/a.js'', ''function Widget(){} module.exports = Widget;'',
     [mk_doclet ''function'' ''Widget'' ''pkg.Widget'' ''global''
        (mk_meta ''a.js'' 1 (Some ''FunctionDeclaration'') (Some ''Widget'') None) None,
      mk_doclet ''member'' ''exports'' ''module.exports'' ''static''
        (mk_meta ''a.js'' 1 (Some ''Identifier'') (Some ''module.exports'') (Some ''Widget''))
        None])"

definition widget_property_module :: file_input where
  "widget_property_module = (''/p/a.js'', ''function Widget(){} exports.Widget = Widget;'',
     [mk_doclet ''function'' ''Widget'' ''pkg.Widget'' ''global''
        (mk_meta ''a.js'' 1 (Some ''FunctionDeclaration'') (Some ''Widget'') None) None,
      mk_doclet ''member'' ''Widget'' ''Widget'' ''static''
        (mk_meta ''a.js'' 1 (Some ''Identifier'') (Some ''exports.Widget'') (Some ''Widget''))
        None])"

definition importer :: "string \<Rightarrow> string list \<Rightarrow> file_input" where
  "importer src types = (''/p/b.js'', src,
     [mk_doclet ''function'' ''f'' ''f'' ''global''
        (mk_meta ''b.js'' 3 (Some ''FunctionDeclaration'') (Some ''f'') None)
        (Some [Some types])])"

text \<open>What a run leaves: the parameter types of the doclets of a file, and the tables of a file.\<close>

definition param_types_of :: "string \<Rightarrow> js_error + registry \<times> doclet list \<Rightarrow> type_names list option list" where
  "param_types_of fname res =
     (case res of
        Inl err \<Rightarrow> []
      | Inr (reg, ds) \<Rightarrow> map d_params (filter (\<lambda>d. map_option m_filename (d_meta d) = Some fname) ds))"

definition aliases_of :: "string \<Rightarrow> js_error + registry \<times> doclet list \<Rightarrow> (string \<times> jsval) list option" where
  "aliases_of fname res =
     (case res of
        Inl err \<Rightarrow> None
      | Inr (reg, ds) \<Rightarrow> map_option localImportAliases (map_of reg fname))"

definition exports_of :: "string \<Rightarrow> js_error + registry \<times> doclet list \<Rightarrow> (string \<times> string) list option" where
  "exports_of fname res =
     (case res of
        Inl err \<Rightarrow> None
      | Inr (reg, ds) \<Rightarrow> map_option exports (map_of reg fname))"


text \<open>
  Claim C1, as stated, fails. \<^verbatim>\<open>/p/a.js\<close> holds \<^verbatim>\<open>function Widget(){}\<close> with the long name
  \<^verbatim>\<open>pkg.Widget\<close> and \<^verbatim>\<open>module.exports = Widget\<close>; \<^verbatim>\<open>/p/b.js\<close> holds
  \<^verbatim>\<open>const {Widget} = require('./a');\<close> and a parameter of type \<^verbatim>\<open>Widget\<close>. The export table
  of \<^verbatim>\<open>/p/a.js\<close> has the one key \<^verbatim>\<open>*\<close>, the destructuring asks for the key \<^verbatim>\<open>Widget\<close>,
  the alias fails, and the type of the parameter is not \<^verbatim>\<open>pkg.Widget\<close>.
\<close>

theorem destructuring_import_of_module_exports_fails:
  "(let r = run (posix_path ''/'')
              [widget_module, importer ''const {Widget} = require('./a');'' [''Widget'']]
    in exports_of ''/p/a.js'' r = Some [(''*'', ''pkg.Widget'')]
       \<and> aliases_of ''/p/b.js'' r = Some [(''Widget'', JNull)]
       \<and> param_types_of ''b.js'' r = [Some [Some [[]]]]
       \<and> param_types_of ''b.js'' r \<noteq> [Some [Some [''pkg.Widget'']]])"
  by code_simp

text \<open>
  Claim C1, amended. With \<^verbatim>\<open>/p/a.js\<close> as in the claim, the type of the parameter of
  \<^verbatim>\<open>/p/b.js\<close> is \<^verbatim>\<open>pkg.Widget\<close> after the run when \<^verbatim>\<open>/p/b.js\<close> binds the whole module,
  \<^verbatim>\<open>const Widget = require('./a');\<close>. With the destructuring of the claim it is
  \<^verbatim>\<open>pkg.Widget\<close> when \<^verbatim>\<open>/p/a.js\<close> exports the property, \<^verbatim>\<open>exports.Widget = Widget\<close>. Both hold
  in either order of the two files.
\<close>

theorem widget_import_resolves:
  "(let r = run (posix_path ''/'')
              [widget_module, importer ''const Widget = require('./a');'' [''Widget'']]
    in exports_of ''/p/a.js'' r = Some [(''*'', ''pkg.Widget'')]
       \<and> aliases_of ''/p/b.js'' r = Some [(''Widget'', JStr ''pkg.Widget'')]
       \<and> param_types_of ''b.js'' r = [Some [Some [''pkg.Widget'']]])
   \<and> (let r = run (posix_path ''/'')
              [importer ''const Widget = require('./a');'' [''Widget''], widget_module]
    in param_types_of ''b.js'' r = [Some [Some [''pkg.Widget'']]])
   \<and> (let r = run (posix_path ''/'')
              [widget_property_module, importer ''const {Widget} = require('./a');'' [''Widget'']]
    in exports_of ''/p/a.js'' r = Some [(''Widget'', ''pkg.Widget'')]
       \<and> aliases_of ''/p/b.js'' r = Some [(''Widget'', JStr ''pkg.Widget'')]
       \<and> param_types_of ''b.js'' r = [Some [Some [''pkg.Widget'']]])
   \<and> (let r = run (posix_path ''/'')
              [importer ''const {Widget} = require('./a');'' [''Widget''], widget_property_module]
    in param_types_of ''b.js'' r = [Some [Some [''pkg.Widget'']]])"
  by code_simp

text \<open>
  Claim C2 does not hold of the code. \<^verbatim>\<open>/p/b.js\<close> holds
  \<^verbatim>\<open>const Foo = require('./missing');\<close> and a parameter with the type names \<^verbatim>\<open>Foo\<close> and
  \<^verbatim>\<open>Array.<Foo>\<close>; no file \<^verbatim>\<open>/p/missing.js\<close> is part of the run. The alias fails, and the
  rewriter puts the empty string where the claim leaves \<^verbatim>\<open>Foo\<close>: it finds the alias in
  the table, takes its value \<^verbatim>\<open>null\<close>, and \<^verbatim>\<open>join\<close> prints \<^verbatim>\<open>null\<close> as the empty string.
\<close>

theorem failed_alias_erases_name:
  "(let r = run (posix_path ''/'')
              [importer ''const Foo = require('./missing');'' [''Foo'', ''Array.<Foo>'']]
    in exports_of ''/p/missing.js'' r = None
       \<and> aliases_of ''/p/b.js'' r = Some [(''Foo'', JNull)]
       \<and> param_types_of ''b.js'' r = [Some [Some [[], ''Array.<>'']]])"
  by code_simp


section \<open>The loops of the barrier as maps\<close>

text \<open>
  Applying a function to every value of a \<^verbatim>\<open>Map\<close>, up to the first exception. The loops of
  \<open>processingComplete\<close> and of \<open>resolveImports\<close> are such maps when the keys are distinct:
  \<open>indexExports\<close> reads no other object, and \<open>resolveImports\<close> reads the export tables
  of the registry, which it leaves as they are.
\<close>

definition mapValuesE :: "('v \<Rightarrow> 'e + 'v) \<Rightarrow> ('k \<times> 'v) list \<Rightarrow> 'e + ('k \<times> 'v) list" where
  "mapValuesE f kvs = mapE (\<lambda>(k, v). case f v of Inl err \<Rightarrow> Inl err | Inr v' \<Rightarrow> Inr (k, v')) kvs"

lemma mapValuesE_Nil [simp]: "mapValuesE f [] = Inr []"
  by (simp add: mapValuesE_def)

lemma mapValuesE_Cons:
  "mapValuesE f ((k, v) # kvs) =
     (case f v of
        Inl err \<Rightarrow> Inl err
      | Inr v' \<Rightarrow> (case mapValuesE f kvs of Inl err \<Rightarrow> Inl err | Inr kvs' \<Rightarrow> Inr ((k, v') # kvs')))"
  by (simp add: mapValuesE_def split: sum.splits)

lemma mapValuesE_keys: "mapValuesE f kvs = Inr kvs' \<Longrightarrow> map fst kvs' = map fst kvs"
  by (induction kvs arbitrary: kvs') (auto simp: mapValuesE_Cons split: sum.splits)

lemma mapValuesE_map_of:
  "mapValuesE f kvs = Inr kvs' \<Longrightarrow>
     map_of kvs' k = (case map_of kvs k of None \<Rightarrow> None
                      | Some v \<Rightarrow> (case f v of Inl err \<Rightarrow> None | Inr v' \<Rightarrow> Some v'))
     \<and> (\<forall>v. map_of kvs k = Some v \<longrightarrow> (\<exists>v'. f v = Inr v'))"
  by (induction kvs arbitrary: kvs') (auto simp: mapValuesE_Cons split: sum.splits)

lemma map_of_append_notin: "k \<notin> fst ` set d \<Longrightarrow> map_of (d @ r) k = map_of r k"
  by (induction d) auto

lemma update_append_notin: "k \<notin> fst ` set d \<Longrightarrow> AList.update k v (d @ r) = d @ AList.update k v r"
  by (induction d) auto

lemma forEachInfo_pure:
  assumes "distinct (map fst (dn @ todo))"
    and "R (dn @ todo)"
    and f_eq: "\<And>r v. R r \<Longrightarrow> f r v = g v"
    and step: "\<And>d k v v' t. R (d @ (k, v) # t) \<Longrightarrow> g v = Inr v' \<Longrightarrow> R (d @ (k, v') # t)"
  shows "forEachInfo f (map fst todo) (dn @ todo) =
     (case mapValuesE g todo of Inl err \<Rightarrow> Inl err | Inr todo' \<Rightarrow> Inr (dn @ todo'))"
  using assms(1,2)
proof (induction todo arbitrary: dn)
  case Nil
  then show ?case by simp
next
  case (Cons kv todo)
  obtain k v where kv: "kv = (k, v)" by (cases kv)
  from Cons.prems(1) kv have notin: "k \<notin> fst ` set dn" by auto
  then have look: "map_of (dn @ kv # todo) k = Some v"
    by (simp add: map_of_append_notin kv del: map_of_append)
  from f_eq[OF Cons.prems(2)] have fv: "f (dn @ kv # todo) v = g v" .
  show ?case
  proof (cases "g v")
    case (Inl err)
    with look fv show ?thesis by (simp add: kv mapValuesE_Cons)
  next
    case (Inr v')
    from notin have upd: "AList.update k v' (dn @ kv # todo) = (dn @ [(k, v')]) @ todo"
      by (simp add: update_append_notin kv)
    from Cons.prems(1) kv have d': "distinct (map fst ((dn @ [(k, v')]) @ todo))" by auto
    from step[of dn k v todo v'] Cons.prems(2) Inr kv have R': "R ((dn @ [(k, v')]) @ todo)" by simp
    from Cons.IH[OF d' R'] look fv Inr upd show ?thesis
      by (simp add: kv mapValuesE_Cons split: sum.splits)
  qed
qed


lemma resolveLoop_pure:
  assumes "distinct (map fst (dn @ todo))"
  shows "resolveLoop reg todo (dn @ todo) =
     (case mapValuesE (resolveRequest reg) todo of
        Inl err \<Rightarrow> Inl err
      | Inr todo' \<Rightarrow> Inr (dn @ todo'))"
  using assms
proof (induction todo arbitrary: dn)
  case Nil
  then show ?case by simp
next
  case (Cons kv todo)
  obtain k v where kv: "kv = (k, v)" by (cases kv)
  from Cons.prems kv have notin: "k \<notin> fst ` set dn" by auto
  show ?case
  proof (cases "resolveRequest reg v")
    case (Inl err)
    then show ?thesis by (simp add: kv mapValuesE_Cons)
  next
    case (Inr v')
    from notin have upd: "AList.update k v' (dn @ kv # todo) = (dn @ [(k, v')]) @ todo"
      by (simp add: update_append_notin kv)
    from Cons.prems kv have d': "distinct (map fst ((dn @ [(k, v')]) @ todo))" by auto
    from Cons.IH[OF d'] Inr upd show ?thesis
      by (simp add: kv mapValuesE_Cons split: sum.splits)
  qed
qed

lemma resolveImports_pure:
  assumes "distinct (map fst (localImportAliases fi))"
  shows "resolveImports reg fi =
     (case mapValuesE (resolveRequest reg) (localImportAliases fi) of
        Inl err \<Rightarrow> Inl err
      | Inr aliases \<Rightarrow> Inr (fi\<lparr>localImportAliases := aliases\<rparr>))"
  using resolveLoop_pure[of "[]" "localImportAliases fi" reg] assms
  by (auto simp: resolveImports_def Let_def split: sum.splits)

text \<open>Two registries with the same export table under every name.\<close>

definition same_exports :: "registry \<Rightarrow> registry \<Rightarrow> bool" where
  "same_exports r r' = (\<forall>k. map_option exports (map_of r k) = map_option exports (map_of r' k))"

lemma resolveRequest_same_exports:
  assumes "same_exports r r'"
  shows "resolveRequest r v = resolveRequest r' v"
proof (cases "js_index v 0")
  case (Inl err)
  then show ?thesis by (simp add: resolveRequest_def)
next
  case (Inr fl)
  show ?thesis
  proof (cases fl)
    case None
    with Inr show ?thesis by (simp add: resolveRequest_def)
  next
    case (Some f)
    from assms have e: "map_option exports (map_of r f) = map_option exports (map_of r' f)"
      by (simp add: same_exports_def)
    show ?thesis
    proof (cases "map_of r f")
      case None
      with e have "map_of r' f = None" by simp
      with None Inr Some show ?thesis by (simp add: resolveRequest_def getFileInfo_def)
    next
      case (Some i)
      with e obtain i' where i': "map_of r' f = Some i'" "exports i' = exports i"
        by (cases "map_of r' f") auto
      with Some Inr \<open>fl = Some f\<close> show ?thesis
        by (simp add: resolveRequest_def getFileInfo_def Let_def split: sum.splits)
    qed
  qed
qed

lemma resolveLoop_same_exports:
  "same_exports r r' \<Longrightarrow> resolveLoop r entries al = resolveLoop r' entries al"
proof (induction entries arbitrary: al)
  case Nil
  show ?case by simp
next
  case (Cons e entries)
  obtain n q where "e = (n, q)" by (cases e)
  with Cons resolveRequest_same_exports[OF Cons.prems, of q] show ?case
    by (simp split: sum.splits)
qed

lemma resolveImports_same_exports:
  "same_exports r r' \<Longrightarrow> resolveImports r fi = resolveImports r' fi"
  by (simp add: resolveImports_def Let_def resolveLoop_same_exports[of r r'])

lemma resolveImports_exports:
  "resolveImports r fi = Inr fi' \<Longrightarrow> exports fi' = exports fi"
  by (auto simp: resolveImports_def Let_def split: if_splits sum.splits)

lemma same_exports_step:
  assumes "same_exports (d @ (k, v) # t) r" "exports v' = exports v"
  shows "same_exports (d @ (k, v') # t) r"
  unfolding same_exports_def
proof
  fix x
  from assms(1) have "map_option exports (map_of (d @ (k, v) # t) x) = map_option exports (map_of r x)"
    by (simp add: same_exports_def)
  moreover have "map_option exports (map_of (d @ (k, v') # t) x)
      = map_option exports (map_of (d @ (k, v) # t) x)"
    using assms(2) by (cases "map_of d x") (auto simp: map_add_def)
  ultimately show "map_option exports (map_of (d @ (k, v') # t) x) = map_option exports (map_of r x)"
    by simp
qed

lemma forEachInfo_indexExports:
  assumes "distinct (map fst reg)"
  shows "forEachInfo (\<lambda>_. indexExports) (map fst reg) reg = mapValuesE indexExports reg"
  using forEachInfo_pure[of "[]" reg "\<lambda>_. True" "\<lambda>_. indexExports" indexExports] assms
  by (simp split: sum.splits)

lemma forEachInfo_resolveImports:
  assumes "distinct (map fst reg)"
  shows "forEachInfo resolveImports (map fst reg) reg = mapValuesE (resolveImports reg) reg"
proof -
  have "forEachInfo resolveImports (map fst reg) ([] @ reg) =
     (case mapValuesE (resolveImports reg) reg of Inl err \<Rightarrow> Inl err | Inr todo' \<Rightarrow> Inr ([] @ todo'))"
  proof (rule forEachInfo_pure[where R="\<lambda>r. same_exports r reg"])
    show "distinct (map fst ([] @ reg))" using assms by simp
    show "same_exports ([] @ reg) reg" by (simp add: same_exports_def)
    show "\<And>r v. same_exports r reg \<Longrightarrow> resolveImports r v = resolveImports reg v"
      by (rule resolveImports_same_exports)
    show "same_exports (d @ (k, v') # t) reg"
      if "same_exports (d @ (k, v) # t) reg" "resolveImports reg v = Inr v'" for d k v v' t
      using that(1) resolveImports_exports[OF that(2)] by (rule same_exports_step)
  qed
  then show ?thesis by (simp split: sum.splits)
qed

lemma barrier_pure:
  assumes "distinct (map fst reg)"
  shows "barrier reg =
     (case mapValuesE indexExports reg of
        Inl err \<Rightarrow> Inl err
      | Inr reg1 \<Rightarrow> mapValuesE (resolveImports reg1) reg1)"
proof (cases "mapValuesE indexExports reg")
  case (Inl err)
  with assms show ?thesis by (simp add: barrier_def forEachInfo_indexExports)
next
  case (Inr reg1)
  from mapValuesE_keys[OF this] assms have "distinct (map fst reg1)" by simp
  with Inr assms show ?thesis
    by (simp add: barrier_def forEachInfo_indexExports forEachInfo_resolveImports)
qed

section \<open>Export tables\<close>

lemma startsWith_dot_iff:
  "startsWith k (a @ ''.'') \<longleftrightarrow> (\<exists>q. k = a @ ''.'' @ q)"
proof
  assume "startsWith k (a @ ''.'')"
  then have "k = (a @ ''.'') @ drop (length (a @ ''.'')) k"
    unfolding startsWith_def by (metis append_take_drop_id)
  then show "\<exists>q. k = a @ ''.'' @ q" by (metis append.assoc)
next
  assume "\<exists>q. k = a @ ''.'' @ q"
  then show "startsWith k (a @ ''.'')" by (auto simp: startsWith_def)
qed

lemma exportsLoop_Some:
  assumes "distinct (map fst ms)"
  shows "\<exists>ex'. exportsLoop (Some a) ln ms ex = Inr ex'
     \<and> (\<forall>p. map_of ex' p =
           (case map_of ms (Some (a @ ''.'' @ p)) of
              None \<Rightarrow> map_of ex p
            | Some v \<Rightarrow> (case get_truthy ln v of None \<Rightarrow> map_of ex p | Some L \<Rightarrow> Some L)))"
  using assms
proof (induction ms arbitrary: ex)
  case Nil
  then show ?case by simp
next
  case (Cons kv ms)
  obtain key v where kv: "kv = (key, v)" by (cases kv)
  from Cons.prems kv have d: "distinct (map fst ms)" and notin: "map_of ms key = None"
    by (auto simp: map_of_eq_None_iff)
  show ?case
  proof (cases key)
    case None
    with Cons.IH[OF d, of ex] kv show ?thesis by (simp add: toStr_def)
  next
    case (Some k)
    show ?thesis
    proof (cases "startsWith k (a @ ''.'')")
      case False
      then have "\<And>p. a @ ''.'' @ p \<noteq> k" by (auto simp: startsWith_dot_iff)
      with Cons.IH[OF d, of ex] kv Some False show ?thesis by (auto simp: toStr_def)
    next
      case True
      then obtain q where q: "k = a @ ''.'' @ q" by (auto simp: startsWith_dot_iff)
      then have dq: "drop (Suc (length a)) k = q" by simp
      show ?thesis
      proof (cases "get_truthy ln v")
        case None
        from Cons.IH[OF d, of ex] obtain ex' where
          e: "exportsLoop (Some a) ln ms ex = Inr ex'" and
          l: "\<And>p. map_of ex' p = (case map_of ms (Some (a @ ''.'' @ p)) of
              None \<Rightarrow> map_of ex p
            | Some v \<Rightarrow> (case get_truthy ln v of None \<Rightarrow> map_of ex p | Some L \<Rightarrow> Some L))"
          by blast
        from e kv Some True None dq have "exportsLoop (Some a) ln (kv # ms) ex = Inr ex'"
          by (simp add: toStr_def)
        moreover have "map_of ex' p = (case map_of (kv # ms) (Some (a @ ''.'' @ p)) of
              None \<Rightarrow> map_of ex p
            | Some v \<Rightarrow> (case get_truthy ln v of None \<Rightarrow> map_of ex p | Some L \<Rightarrow> Some L))" for p
          using l[of p] notin kv Some q None by (cases "p = q") auto
        ultimately show ?thesis by blast
      next
        case (Some L)
        from Cons.IH[OF d, of "AList.update q L ex"] obtain ex' where
          e: "exportsLoop (Some a) ln ms (AList.update q L ex) = Inr ex'" and
          l: "\<And>p. map_of ex' p = (case map_of ms (Some (a @ ''.'' @ p)) of
              None \<Rightarrow> map_of (AList.update q L ex) p
            | Some v \<Rightarrow> (case get_truthy ln v of None \<Rightarrow> map_of (AList.update q L ex) p | Some L \<Rightarrow> Some L))"
          by blast
        from e kv \<open>key = Some k\<close> True Some dq have "exportsLoop (Some a) ln (kv # ms) ex = Inr ex'"
          by (simp add: toStr_def)
        moreover have "map_of ex' p = (case map_of (kv # ms) (Some (a @ ''.'' @ p)) of
              None \<Rightarrow> map_of ex p
            | Some v \<Rightarrow> (case get_truthy ln v of None \<Rightarrow> map_of ex p | Some L \<Rightarrow> Some L))" for p
          using l[of p] notin kv \<open>key = Some k\<close> q Some
          by (cases "p = q") (auto simp: update_conv' split: option.splits)
        ultimately show ?thesis by blast
      qed
    qed
  qed
qed

lemma exportsAliasLoop_unchanged:
  "\<forall>kv\<in>set ms. snd kv \<noteq> Some ''exports'' \<Longrightarrow> exportsAliasLoop ms a = a"
  unfolding exportsAliasLoop_def by (induction ms arbitrary: a) (auto split: prod.splits)




text \<open>
  A file that assigns \<^verbatim>\<open>module.exports = Widget\<close>, \<^verbatim>\<open>Widget.create = make\<close> and
  \<^verbatim>\<open>Widget.VERSION = version\<close>, where \<^verbatim>\<open>version\<close> is no declaration, and a file that
  exports \<^verbatim>\<open>helper\<close>, which is no declaration either.
\<close>

definition precedence_example :: FileInfo where
  "precedence_example = \<lparr>filename = ''/p/a.js'', localImportAliases = [],
     longnamesByDeclaration = [(Some ''Widget'', ''pkg.Widget''), (Some ''make'', ''pkg.make'')],
     mappings = [(Some ''module.exports'', Some ''Widget''), (Some ''Widget.create'', Some ''make''),
                 (Some ''Widget.VERSION'', Some ''version'')],
     exports = []\<rparr>"

definition undeclared_example :: FileInfo where
  "undeclared_example = \<lparr>filename = ''/p/c.js'', localImportAliases = [],
     longnamesByDeclaration = [(Some ''make'', ''pkg.make'')],
     mappings = [(Some ''module.exports'', Some ''helper''), (Some ''helper.create'', Some ''make'')],
     exports = []\<rparr>"

text \<open>
  Claim C3 (export precedence). Let the assignments of a file hold \<^verbatim>\<open>module.exports\<close> with
  the value \<open>X\<close> and no assignment of the value \<^verbatim>\<open>exports\<close>. A key of the assignments is the
  text of an assignment target, so none is \<^verbatim>\<open>X.*\<close>. Then \<open>indexExports\<close> returns without an
  exception and changes the export table only. The table maps \<^verbatim>\<open>*\<close> to the long name of
  \<open>X\<close> when \<open>X\<close> has one, and leaves \<^verbatim>\<open>*\<close> as it was when \<open>X\<close> has none. It maps \<open>p\<close> to the
  long name of \<open>V\<close> for every assignment \<open>X.p = V\<close> whose value has a long name. An
  assignment \<open>X.p = V\<close> whose value has no long name is skipped: the entry of \<open>p\<close> stays as
  it was. A path \<open>p\<close> with no assignment \<open>X.p\<close> keeps its entry too. Having a long name
  is the test of the code, \<open>get_truthy\<close>: an entry of the declared names that is not the
  empty string.
\<close>

theorem indexExports_export_precedence:
  assumes "distinct (map fst (mappings fi))"
    and "map_of (mappings fi) (Some ''module.exports'') = Some (Some X)"
    and "\<forall>kv\<in>set (mappings fi). snd kv \<noteq> Some ''exports''"
    and "map_of (mappings fi) (Some (X @ ''.*'')) = None"
  shows "\<exists>fi'. indexExports fi = Inr fi' \<and> fi' = fi\<lparr>exports := exports fi'\<rparr>
     \<and> (\<forall>L. get_truthy (longnamesByDeclaration fi) (Some X) = Some L
          \<longrightarrow> map_of (exports fi') ''*'' = Some L)
     \<and> (get_truthy (longnamesByDeclaration fi) (Some X) = None
          \<longrightarrow> map_of (exports fi') ''*'' = map_of (exports fi) ''*'')
     \<and> (\<forall>p V L. map_of (mappings fi) (Some (X @ ''.'' @ p)) = Some V
            \<and> get_truthy (longnamesByDeclaration fi) V = Some L
          \<longrightarrow> map_of (exports fi') p = Some L)
     \<and> (\<forall>p V. map_of (mappings fi) (Some (X @ ''.'' @ p)) = Some V
            \<and> get_truthy (longnamesByDeclaration fi) V = None
          \<longrightarrow> map_of (exports fi') p = map_of (exports fi) p)
     \<and> (\<forall>p. p \<noteq> ''*'' \<and> map_of (mappings fi) (Some (X @ ''.'' @ p)) = None
          \<longrightarrow> map_of (exports fi') p = map_of (exports fi) p)"
proof -
  let ?ln = "longnamesByDeclaration fi"
  let ?ex0 = "case get_truthy ?ln (Some X) of
                Some longname \<Rightarrow> AList.update ''*'' longname (exports fi)
              | None \<Rightarrow> exports fi"
  from exportsLoop_Some[OF assms(1), of X ?ln ?ex0] obtain ex' where
    e: "exportsLoop (Some X) ?ln (mappings fi) ?ex0 = Inr ex'" and
    l: "\<And>p. map_of ex' p =
           (case map_of (mappings fi) (Some (X @ ''.'' @ p)) of
              None \<Rightarrow> map_of ?ex0 p
            | Some v \<Rightarrow> (case get_truthy ?ln v of None \<Rightarrow> map_of ?ex0 p | Some L \<Rightarrow> Some L))"
    by blast
  from e assms(2) exportsAliasLoop_unchanged[OF assms(3), of "Some X"]
  have r: "indexExports fi = Inr (fi\<lparr>exports := ex'\<rparr>)"
    by (simp add: indexExports_def)
  from assms(4) have nostar: "map_of (mappings fi) (Some (X @ ''.'' @ ''*'')) = None" by simp
  have star: "map_of ex' ''*'' = Some L" if "get_truthy ?ln (Some X) = Some L" for L
    using l[of "''*''"] nostar that by (simp add: update_conv')
  have nostar': "map_of ex' ''*'' = map_of (exports fi) ''*''" if "get_truthy ?ln (Some X) = None"
    using l[of "''*''"] nostar that by simp
  have props: "map_of ex' p = Some L"
    if "map_of (mappings fi) (Some (X @ ''.'' @ p)) = Some V" "get_truthy ?ln V = Some L" for p V L
    using l[of p] that by simp
  have skipped: "map_of ex' p = map_of (exports fi) p"
    if "map_of (mappings fi) (Some (X @ ''.'' @ p)) = Some V" "get_truthy ?ln V = None" for p V
  proof -
    from that(1) nostar have "p \<noteq> ''*''" by auto
    with l[of p] that show ?thesis by (auto simp: update_conv' split: option.splits)
  qed
  have others: "map_of ex' p = map_of (exports fi) p"
    if "p \<noteq> ''*''" "map_of (mappings fi) (Some (X @ ''.'' @ p)) = None" for p
    using l[of p] that by (auto simp: update_conv' split: option.splits)
  from r star nostar' props skipped others show ?thesis by auto
qed

theorem indexExports_export_precedence_witness:
  "(\<exists>fi'. indexExports precedence_example = Inr fi'
     \<and> map_of (exports fi') ''*'' = Some ''pkg.Widget''
     \<and> map_of (exports fi') ''create'' = Some ''pkg.make''
     \<and> map_of (exports fi') ''VERSION'' = None)
   \<and> (\<exists>fi'. indexExports undeclared_example = Inr fi'
     \<and> map_of (exports fi') ''*'' = None
     \<and> map_of (exports fi') ''create'' = Some ''pkg.make'')"
proof
  have h: "distinct (map fst (mappings precedence_example))"
    "map_of (mappings precedence_example) (Some ''module.exports'') = Some (Some ''Widget'')"
    "\<forall>kv\<in>set (mappings precedence_example). snd kv \<noteq> Some ''exports''"
    "map_of (mappings precedence_example) (Some (''Widget'' @ ''.*'')) = None"
    by (simp_all add: precedence_example_def)
  have f: "get_truthy (longnamesByDeclaration precedence_example) (Some ''Widget'') = Some ''pkg.Widget''"
    "map_of (mappings precedence_example) (Some (''Widget'' @ ''.'' @ ''create'')) = Some (Some ''make'')"
    "get_truthy (longnamesByDeclaration precedence_example) (Some ''make'') = Some ''pkg.make''"
    "map_of (mappings precedence_example) (Some (''Widget'' @ ''.'' @ ''VERSION'')) = Some (Some ''version'')"
    "get_truthy (longnamesByDeclaration precedence_example) (Some ''version'') = None"
    "map_of (exports precedence_example) ''VERSION'' = None"
    by (simp_all add: precedence_example_def get_truthy_def)
  from indexExports_export_precedence[OF h] obtain fi' where
    r: "indexExports precedence_example = Inr fi'" and
    star: "\<forall>L. get_truthy (longnamesByDeclaration precedence_example) (Some ''Widget'') = Some L
          \<longrightarrow> map_of (exports fi') ''*'' = Some L" and
    props: "\<forall>p V L. map_of (mappings precedence_example) (Some (''Widget'' @ ''.'' @ p)) = Some V
            \<and> get_truthy (longnamesByDeclaration precedence_example) V = Some L
          \<longrightarrow> map_of (exports fi') p = Some L" and
    skipped: "\<forall>p V. map_of (mappings precedence_example) (Some (''Widget'' @ ''.'' @ p)) = Some V
            \<and> get_truthy (longnamesByDeclaration precedence_example) V = None
          \<longrightarrow> map_of (exports fi') p = map_of (exports precedence_example) p"
    by (elim exE conjE) (rule that; assumption)
  from star[rule_format, of "''pkg.Widget''"] f have "map_of (exports fi') ''*'' = Some ''pkg.Widget''" by simp
  moreover from props[rule_format, of "''create''" "Some ''make''" "''pkg.make''"] f
  have "map_of (exports fi') ''create'' = Some ''pkg.make''" by simp
  moreover from skipped[rule_format, of "''VERSION''" "Some ''version''"] f
  have "map_of (exports fi') ''VERSION'' = None" by simp
  ultimately show "\<exists>fi'. indexExports precedence_example = Inr fi'
     \<and> map_of (exports fi') ''*'' = Some ''pkg.Widget''
     \<and> map_of (exports fi') ''create'' = Some ''pkg.make''
     \<and> map_of (exports fi') ''VERSION'' = None" using r by blast
next
  have h: "distinct (map fst (mappings undeclared_example))"
    "map_of (mappings undeclared_example) (Some ''module.exports'') = Some (Some ''helper'')"
    "\<forall>kv\<in>set (mappings undeclared_example). snd kv \<noteq> Some ''exports''"
    "map_of (mappings undeclared_example) (Some (''helper'' @ ''.*'')) = None"
    by (simp_all add: undeclared_example_def)
  have f: "get_truthy (longnamesByDeclaration undeclared_example) (Some ''helper'') = None"
    "map_of (mappings undeclared_example) (Some (''helper'' @ ''.'' @ ''create'')) = Some (Some ''make'')"
    "get_truthy (longnamesByDeclaration undeclared_example) (Some ''make'') = Some ''pkg.make''"
    "map_of (exports undeclared_example) ''*'' = None"
    by (simp_all add: undeclared_example_def get_truthy_def)
  from indexExports_export_precedence[OF h] obtain fi' where
    r: "indexExports undeclared_example = Inr fi'" and
    nostar: "get_truthy (longnamesByDeclaration undeclared_example) (Some ''helper'') = None
          \<longrightarrow> map_of (exports fi') ''*'' = map_of (exports undeclared_example) ''*''" and
    props: "\<forall>p V L. map_of (mappings undeclared_example) (Some (''helper'' @ ''.'' @ p)) = Some V
            \<and> get_truthy (longnamesByDeclaration undeclared_example) V = Some L
          \<longrightarrow> map_of (exports fi') p = Some L"
    by (elim exE conjE) (rule that; assumption)
  from nostar f have "map_of (exports fi') ''*'' = None" by simp
  moreover from props[rule_format, of "''create''" "Some ''make''" "''pkg.make''"] f
  have "map_of (exports fi') ''create'' = Some ''pkg.make''" by simp
  ultimately show "\<exists>fi'. indexExports undeclared_example = Inr fi'
     \<and> map_of (exports fi') ''*'' = None
     \<and> map_of (exports fi') ''create'' = Some ''pkg.make''" using r by blast
qed




section \<open>The parse phase, file by file\<close>

text \<open>
  Every handler of the parse phase leaves the registry alone or replaces the object of one
  file, which it creates first if it is absent. \<open>touch\<close> is that step, and an effect is
  what a handler does to the object (\<open>None\<close>: nothing, the object is not even created).
\<close>

definition touch :: "string \<Rightarrow> (FileInfo \<Rightarrow> FileInfo) \<Rightarrow> registry \<Rightarrow> registry" where
  "touch fname G reg =
     (case getFileInfo reg fname True of
        (None, reg') \<Rightarrow> reg'
      | (Some fileinfo, reg') \<Rightarrow> AList.update fname (G fileinfo) reg')"

definition opt_touch :: "string \<Rightarrow> (FileInfo \<Rightarrow> FileInfo) option \<Rightarrow> registry \<Rightarrow> registry" where
  "opt_touch fname eff reg = (case eff of None \<Rightarrow> reg | Some G \<Rightarrow> touch fname G reg)"

definition then_effect :: "(FileInfo \<Rightarrow> FileInfo) option \<Rightarrow> (FileInfo \<Rightarrow> FileInfo) option \<Rightarrow>
    (FileInfo \<Rightarrow> FileInfo) option" where
  "then_effect a b =
     (case a of
        None \<Rightarrow> b
      | Some G1 \<Rightarrow> (case b of None \<Rightarrow> Some G1 | Some G2 \<Rightarrow> Some (G2 \<circ> G1)))"

definition info_or_new :: "registry \<Rightarrow> string \<Rightarrow> FileInfo" where
  "info_or_new reg fname = (case map_of reg fname of None \<Rightarrow> newFileInfo fname | Some fi \<Rightarrow> fi)"

text \<open>What the handlers do to the object of the file.\<close>

definition setAlias :: "string \<Rightarrow> jsval \<Rightarrow> FileInfo \<Rightarrow> FileInfo" where
  "setAlias localAlias v fi =
     fi\<lparr>localImportAliases := AList.update localAlias v (localImportAliases fi)\<rparr>"

definition typedefEffect :: "path_api \<Rightarrow> string \<Rightarrow> string \<Rightarrow> (FileInfo \<Rightarrow> FileInfo) option" where
  "typedefEffect P fname src =
     (let matched_all = matchAll typedefRegex src in
      if matched_all = [] then None
      else Some (fold (\<lambda>matched.
             setAlias (grp matched 3)
               (JPair (withExt (p_resolve P (p_dirname P fname) (grp matched 1)))
                  (drop 1 (grp matched 2)))) matched_all))"

definition simpleEffect :: "path_api \<Rightarrow> string \<Rightarrow> string \<Rightarrow> (FileInfo \<Rightarrow> FileInfo) option" where
  "simpleEffect P fname src =
     (let matched_all = matchAll simpleRequire src in
      if matched_all = [] then None
      else Some (fold (\<lambda>matched.
             setAlias (grp matched 1)
               (JPair (withExt (p_resolve P (p_dirname P fname) (grp matched 2)))
                  (drop 1 (grp matched 3)))) matched_all))"

definition destructEffect :: "path_api \<Rightarrow> string \<Rightarrow> string \<Rightarrow> (FileInfo \<Rightarrow> FileInfo) option" where
  "destructEffect P fname src =
     (let matched_all = matchAll destructRequire src in
      if matched_all = [] then None
      else Some (fold (\<lambda>matched.
             fold (\<lambda>name.
                setAlias name
                  (JPair (withExt (p_resolve P (p_dirname P fname) (grp matched 2)))
                     (if drop 1 (grp matched 3) \<noteq> [] then drop 1 (grp matched 3) @ ''.'' @ name
                      else name)))
               (map trim (split_on CHR '','' (grp matched 1)))) matched_all))"

lemma touch_eq: "touch fname G reg = AList.update fname (G (info_or_new reg fname)) reg"
  by (simp add: touch_def getFileInfo_def info_or_new_def Let_def update_triv split: option.splits)

lemma map_of_touch:
  "map_of (touch fname G reg) = (map_of reg)(fname \<mapsto> G (info_or_new reg fname))"
  by (simp add: touch_eq update_conv')

lemma touch_touch: "touch fname G2 (touch fname G1 reg) = touch fname (G2 \<circ> G1) reg"
  by (simp add: touch_eq info_or_new_def update_conv')

lemma opt_touch_opt_touch:
  "opt_touch fname b (opt_touch fname a reg) = opt_touch fname (then_effect a b) reg"
  by (simp add: opt_touch_def then_effect_def touch_touch split: option.splits)

lemma distinct_opt_touch:
  "distinct (map fst reg) \<Longrightarrow> distinct (map fst (opt_touch fname eff reg))"
  by (simp add: opt_touch_def touch_eq distinct_update split: option.splits)

lemma map_of_opt_touch_other:
  "k \<noteq> fname \<Longrightarrow> map_of (opt_touch fname eff reg) k = map_of reg k"
  by (simp add: opt_touch_def map_of_touch split: option.splits)

lemma map_of_opt_touch_same:
  "map_of (opt_touch fname eff reg) fname =
     (case eff of None \<Rightarrow> map_of reg fname | Some G \<Rightarrow> Some (G (info_or_new reg fname)))"
  by (simp add: opt_touch_def map_of_touch split: option.splits)


lemma then_effect_assoc:
  "then_effect (then_effect a b) c = then_effect a (then_effect b c)"
  by (simp add: then_effect_def comp_assoc split: option.splits)

lemma typedefImportAliases_touch:
  "fst (typedefImportAliases P reg e) =
     opt_touch (e_filename e) (typedefEffect P (e_filename e) (e_source e)) reg"
proof (cases "matchAll typedefRegex (e_source e) = []")
  case True
  then show ?thesis
    by (simp add: typedefImportAliases_def typedefEffect_def opt_touch_def)
next
  case False
  then show ?thesis
    unfolding typedefImportAliases_def typedefEffect_def opt_touch_def touch_def Let_def
      setAlias_def
    by (simp split: prod.splits option.splits)
qed

lemma typedefImportAliases_event:
  "snd (typedefImportAliases P reg e) =
     e\<lparr>e_source := (if matchAll typedefRegex (e_source e) = [] then e_source e
                     else rx_remove_all typedefRegex (e_source e))\<rparr>"
proof (cases "matchAll typedefRegex (e_source e) = []")
  case True
  then show ?thesis by (simp add: typedefImportAliases_def)
next
  case False
  then show ?thesis
    unfolding typedefImportAliases_def Let_def
    by (simp add: getFileInfo_def Let_def split: prod.splits option.splits)
qed

lemma constSimpleRequireAliases_touch:
  "constSimpleRequireAliases P reg e =
     opt_touch (e_filename e) (simpleEffect P (e_filename e) (e_source e)) reg"
proof (cases "matchAll simpleRequire (e_source e) = []")
  case True
  then show ?thesis
    by (simp add: constSimpleRequireAliases_def simpleEffect_def opt_touch_def)
next
  case False
  then show ?thesis
    unfolding constSimpleRequireAliases_def simpleEffect_def opt_touch_def touch_def Let_def
      setAlias_def
    by (simp split: prod.splits option.splits)
qed

lemma constDestructRequireAliases_touch:
  "constDestructRequireAliases P reg e =
     opt_touch (e_filename e) (destructEffect P (e_filename e) (e_source e)) reg"
proof (cases "matchAll destructRequire (e_source e) = []")
  case True
  then show ?thesis
    by (simp add: constDestructRequireAliases_def destructEffect_def opt_touch_def)
next
  case False
  then show ?thesis
    unfolding constDestructRequireAliases_def destructEffect_def opt_touch_def touch_def Let_def
      setAlias_def
    by (simp split: prod.splits option.splits)
qed

definition beforeParseEffect :: "path_api \<Rightarrow> string \<Rightarrow> string \<Rightarrow> (FileInfo \<Rightarrow> FileInfo) option" where
  "beforeParseEffect P fname src =
     (let src1 = (if matchAll typedefRegex src = [] then src else rx_remove_all typedefRegex src)
      in then_effect (then_effect (typedefEffect P fname src) (simpleEffect P fname src1))
           (destructEffect P fname src1))"

lemma beforeParse_touch:
  "fst (beforeParse P reg e) =
     opt_touch (e_filename e) (beforeParseEffect P (e_filename e) (e_source e)) reg"
proof -
  obtain reg1 e1 where t: "typedefImportAliases P reg e = (reg1, e1)"
    by (cases "typedefImportAliases P reg e")
  from t typedefImportAliases_touch[of P reg e] typedefImportAliases_event[of P reg e]
  have r1: "reg1 = opt_touch (e_filename e) (typedefEffect P (e_filename e) (e_source e)) reg"
    and e1: "e_filename e1 = e_filename e"
      "e_source e1 = (if matchAll typedefRegex (e_source e) = [] then e_source e
                      else rx_remove_all typedefRegex (e_source e))"
    by auto
  show ?thesis
    unfolding beforeParse_def t
    by (simp add: Let_def constSimpleRequireAliases_touch constDestructRequireAliases_touch
        r1 e1 beforeParseEffect_def opt_touch_opt_touch then_effect_assoc)
qed

text \<open>A doclet of the file: its \<^verbatim>\<open>meta\<close> resolves to the name of the file.\<close>

definition doclet_of :: "path_api \<Rightarrow> string \<Rightarrow> doclet \<Rightarrow> bool" where
  "doclet_of P fname d =
     (case d_meta d of
        None \<Rightarrow> False
      | Some meta \<Rightarrow> p_resolve P (m_path meta) (m_filename meta) = fname)"

definition docletEffect :: "doclet \<Rightarrow> (FileInfo \<Rightarrow> FileInfo) option" where
  "docletEffect d =
     (case d_meta d of
        None \<Rightarrow> None
      | Some meta \<Rightarrow>
          if d_scope d \<noteq> ''global'' \<and> d_scope d \<noteq> ''static'' then None
          else Some (\<lambda>fileinfo. indexMappings (indexLongnames fileinfo d meta) d meta))"

definition docletsEffect :: "doclet list \<Rightarrow> (FileInfo \<Rightarrow> FileInfo) option" where
  "docletsEffect ds = foldr (\<lambda>d. then_effect (docletEffect d)) ds None"

definition fileEffect :: "path_api \<Rightarrow> file_input \<Rightarrow> (FileInfo \<Rightarrow> FileInfo) option" where
  "fileEffect P f =
     (case f of (fname, src, doclets) \<Rightarrow>
        then_effect (beforeParseEffect P fname src) (docletsEffect doclets))"

lemma newDoclet_touch:
  assumes "doclet_of P fname d"
  shows "newDoclet P reg d = Inr (opt_touch fname (docletEffect d) reg)"
proof -
  from assms obtain meta where m: "d_meta d = Some meta"
    and f: "p_resolve P (m_path meta) (m_filename meta) = fname"
    by (auto simp: doclet_of_def split: option.splits)
  show ?thesis
  proof (cases "d_scope d \<noteq> ''global'' \<and> d_scope d \<noteq> ''static''")
    case True
    with m show ?thesis by (simp add: newDoclet_def docletEffect_def opt_touch_def)
  next
    case False
    then have "newDoclet P reg d =
        Inr (touch fname (\<lambda>fileinfo. indexMappings (indexLongnames fileinfo d meta) d meta) reg)"
      unfolding newDoclet_def touch_def m
      by (cases "getFileInfo reg fname True"; cases "fst (getFileInfo reg fname True)")
        (auto simp: f)
    with False m show ?thesis by (auto simp: docletEffect_def opt_touch_def)
  qed
qed

lemma newDoclets_touch:
  "\<forall>d\<in>set ds. doclet_of P fname d \<Longrightarrow>
     newDoclets P reg ds = Inr (opt_touch fname (docletsEffect ds) reg)"
proof (induction ds arbitrary: reg)
  case Nil
  show ?case by (simp add: docletsEffect_def opt_touch_def)
next
  case (Cons d ds)
  then show ?case
    by (simp add: newDoclet_touch[of P fname d] docletsEffect_def opt_touch_opt_touch)
qed

lemma parseFile_touch:
  "\<forall>d\<in>set ds. doclet_of P fname d \<Longrightarrow>
     parseFile P reg (fname, src, ds) = Inr (opt_touch fname (fileEffect P (fname, src, ds)) reg)"
  using beforeParse_touch[of P reg "\<lparr>e_filename = fname, e_source = src\<rparr>"]
  by (simp add: parseFile_def newDoclets_touch fileEffect_def opt_touch_opt_touch)

text \<open>
  The files of a run have distinct names, and the doclets of a file carry a \<^verbatim>\<open>meta\<close> that
  resolves to the name of the file.
\<close>

definition files_ok :: "path_api \<Rightarrow> file_input list \<Rightarrow> bool" where
  "files_ok P files =
     (distinct (map fst files) \<and>
      list_all (\<lambda>f. case f of (fname, src, ds) \<Rightarrow> list_all (doclet_of P fname) ds) files)"

lemma parseFiles_fold:
  assumes "list_all (\<lambda>f. case f of (fname, src, ds) \<Rightarrow> list_all (doclet_of P fname) ds) files"
  shows "parseFiles P reg files = Inr (fold (\<lambda>f. opt_touch (fst f) (fileEffect P f)) files reg)"
  using assms
proof (induction files arbitrary: reg)
  case Nil
  show ?case by simp
next
  case (Cons f files)
  obtain fname src ds where f: "f = (fname, src, ds)" by (cases f)
  with Cons.prems have "\<forall>d\<in>set ds. doclet_of P fname d" by (simp add: list_all_iff)
  from parseFile_touch[OF this, of reg src] Cons f show ?case by simp
qed

lemma distinct_fold_opt_touch:
  "distinct (map fst reg) \<Longrightarrow>
     distinct (map fst (fold (\<lambda>f. opt_touch (fst f) (fileEffect P f)) files reg))"
  by (induction files arbitrary: reg) (simp_all add: distinct_opt_touch)

lemma map_of_fold_opt_touch:
  assumes "distinct (map fst files)"
  shows "map_of (fold (\<lambda>f. opt_touch (fst f) (fileEffect P f)) files reg) k =
     (case map_of files k of
        None \<Rightarrow> map_of reg k
      | Some sd \<Rightarrow> map_of (opt_touch k (fileEffect P (k, sd)) reg) k)"
  using assms
proof (induction files arbitrary: reg)
  case Nil
  show ?case by simp
next
  case (Cons f files)
  obtain fname sd where f: "f = (fname, sd)" by (cases f)
  from Cons.prems f have d: "distinct (map fst files)" and n: "map_of files fname = None"
    by (auto simp: map_of_eq_None_iff)
  let ?reg1 = "opt_touch fname (fileEffect P (fname, sd)) reg"
  from Cons.IH[OF d, of ?reg1] f
  have IH: "map_of (fold (\<lambda>f. opt_touch (fst f) (fileEffect P f)) (f # files) reg) k =
     (case map_of files k of
        None \<Rightarrow> map_of ?reg1 k
      | Some sd' \<Rightarrow> map_of (opt_touch k (fileEffect P (k, sd')) ?reg1) k)"
    by simp
  show ?case
  proof (cases "k = fname")
    case True
    with IH n f show ?thesis by simp
  next
    case False
    then have "map_of ?reg1 k = map_of reg k" by (simp add: map_of_opt_touch_other)
    moreover from this have "info_or_new ?reg1 k = info_or_new reg k"
      by (simp add: info_or_new_def)
    ultimately show ?thesis using IH False f
      by (simp add: map_of_opt_touch_same split: option.splits)
  qed
qed

text \<open>
  What the parse phase establishes: the keys of the registry are distinct, and every
  object has an empty export table and aliases with distinct names that are all requests.
\<close>

definition is_request :: "jsval \<Rightarrow> bool" where
  "is_request v = (case v of JPair f e \<Rightarrow> True | JStr s \<Rightarrow> False | JNull \<Rightarrow> False)"

definition parsed_info :: "FileInfo \<Rightarrow> bool" where
  "parsed_info fi =
     (exports fi = [] \<and> distinct (map fst (localImportAliases fi))
      \<and> list_all (\<lambda>kv. is_request (snd kv)) (localImportAliases fi))"

definition parsed_registry :: "registry \<Rightarrow> bool" where
  "parsed_registry reg = (distinct (map fst reg) \<and> list_all (\<lambda>kv. parsed_info (snd kv)) reg)"

definition keeps_parsed :: "(FileInfo \<Rightarrow> FileInfo) option \<Rightarrow> bool" where
  "keeps_parsed eff = (case eff of None \<Rightarrow> True | Some G \<Rightarrow> (\<forall>fi. parsed_info fi \<longrightarrow> parsed_info (G fi)))"

lemma list_all_update:
  "list_all Q al \<Longrightarrow> Q (k, v) \<Longrightarrow> list_all Q (AList.update k v al)"
  by (induction al) auto

lemma parsed_info_new: "parsed_info (newFileInfo fname)"
  by (simp add: parsed_info_def newFileInfo_def)

lemma parsed_info_setAlias:
  "parsed_info fi \<Longrightarrow> parsed_info (setAlias a (JPair f e) fi)"
  by (simp add: parsed_info_def setAlias_def distinct_update list_all_update is_request_def)

lemma parsed_info_fold:
  "(\<And>x fi. parsed_info fi \<Longrightarrow> parsed_info (F x fi)) \<Longrightarrow> parsed_info fi \<Longrightarrow>
     parsed_info (fold F xs fi)"
  by (induction xs arbitrary: fi) simp_all

lemma keeps_parsed_then:
  "keeps_parsed a \<Longrightarrow> keeps_parsed b \<Longrightarrow> keeps_parsed (then_effect a b)"
  by (auto simp: keeps_parsed_def then_effect_def split: option.splits)

lemma keeps_parsed_typedef: "keeps_parsed (typedefEffect P fname src)"
  by (auto simp: keeps_parsed_def typedefEffect_def Let_def intro!: parsed_info_fold parsed_info_setAlias)

lemma keeps_parsed_simple: "keeps_parsed (simpleEffect P fname src)"
  by (auto simp: keeps_parsed_def simpleEffect_def Let_def intro!: parsed_info_fold parsed_info_setAlias)

lemma keeps_parsed_destruct: "keeps_parsed (destructEffect P fname src)"
  by (auto simp: keeps_parsed_def destructEffect_def Let_def intro!: parsed_info_fold parsed_info_setAlias)

lemma keeps_parsed_beforeParse: "keeps_parsed (beforeParseEffect P fname src)"
  by (simp add: beforeParseEffect_def Let_def keeps_parsed_then keeps_parsed_typedef
      keeps_parsed_simple keeps_parsed_destruct)

lemma keeps_parsed_doclet: "keeps_parsed (docletEffect d)"
  by (auto simp: keeps_parsed_def docletEffect_def parsed_info_def indexMappings_def
      indexLongnames_def Let_def split: option.splits)

lemma keeps_parsed_doclets: "keeps_parsed (docletsEffect ds)"
proof (induction ds)
  case Nil
  show ?case by (simp add: docletsEffect_def keeps_parsed_def)
next
  case (Cons d ds)
  from keeps_parsed_then[OF keeps_parsed_doclet[of d] Cons] show ?case
    by (simp add: docletsEffect_def)
qed

lemma keeps_parsed_file: "keeps_parsed (fileEffect P f)"
  by (cases f) (simp add: fileEffect_def keeps_parsed_then keeps_parsed_beforeParse keeps_parsed_doclets)

lemma parsed_registry_lookup:
  "parsed_registry reg \<Longrightarrow> map_of reg k = Some fi \<Longrightarrow> parsed_info fi"
  by (auto simp: parsed_registry_def list_all_iff dest: map_of_SomeD)

lemma parsed_registry_opt_touch:
  assumes "parsed_registry reg" "keeps_parsed eff"
  shows "parsed_registry (opt_touch fname eff reg)"
proof (cases eff)
  case None
  with assms show ?thesis by (simp add: opt_touch_def)
next
  case (Some G)
  have "parsed_info (info_or_new reg fname)"
    using parsed_registry_lookup[OF assms(1)] parsed_info_new
    by (auto simp: info_or_new_def split: option.splits)
  with assms(2) Some have "parsed_info (G (info_or_new reg fname))"
    by (simp add: keeps_parsed_def)
  with assms(1) Some show ?thesis
    by (simp add: opt_touch_def touch_eq parsed_registry_def distinct_update list_all_update)
qed

lemma parsed_registry_fold:
  "parsed_registry reg \<Longrightarrow>
     parsed_registry (fold (\<lambda>f. opt_touch (fst f) (fileEffect P f)) files reg)"
  by (induction files arbitrary: reg) (simp_all add: parsed_registry_opt_touch keeps_parsed_file)

lemma parseFiles_parsed:
  assumes "files_ok P files"
  shows "\<exists>reg. parseFiles P [] files = Inr reg \<and> parsed_registry reg"
proof -
  have "parsed_registry []" by (simp add: parsed_registry_def)
  from parsed_registry_fold[OF this] parseFiles_fold[of P files "[]"] assms
  show ?thesis by (simp add: files_ok_def)
qed

section \<open>The resolution of the aliases\<close>

lemma indexExports_only_exports:
  "indexExports fi = Inr fi' \<Longrightarrow> fi' = fi\<lparr>exports := exports fi'\<rparr>"
  by (auto simp: indexExports_def Let_def split: prod.splits sum.splits)

lemma get_truthy_Some_nonempty: "get_truthy m k = Some L \<Longrightarrow> L \<noteq> []"
  by (auto simp: get_truthy_def split: option.splits if_splits)

lemma exportsLoop_nonempty:
  "exportsLoop a ln ms ex = Inr ex' \<Longrightarrow> list_all (\<lambda>kv. snd kv \<noteq> []) ex \<Longrightarrow>
     list_all (\<lambda>kv. snd kv \<noteq> []) ex'"
proof (induction ms arbitrary: ex)
  case Nil
  then show ?case by simp
next
  case (Cons kv ms)
  obtain key v where kv: "kv = (key, v)" by (cases kv)
  show ?case
  proof (cases "\<exists>k al L. key = Some k \<and> startsWith k (toStr a @ ''.'') \<and> a = Some al
                  \<and> get_truthy ln v = Some L")
    case True
    then obtain k al L where k: "key = Some k" "startsWith k (toStr a @ ''.'')" "a = Some al"
      "get_truthy ln v = Some L" by blast
    from get_truthy_Some_nonempty[OF k(4)] Cons.prems(2)
    have "list_all (\<lambda>kv. snd kv \<noteq> []) (AList.update (drop (length al + 1) k) L ex)"
      by (simp add: list_all_update)
    moreover from Cons.prems(1) kv k
    have "exportsLoop a ln ms (AList.update (drop (length al + 1) k) L ex) = Inr ex'"
      by simp
    ultimately show ?thesis by (rule Cons.IH[rotated])
  next
    case False
    with Cons.prems(1) kv have "exportsLoop a ln ms ex = Inr ex'"
      by (auto split: option.splits if_splits)
    from Cons.IH[OF this Cons.prems(2)] show ?thesis .
  qed
qed

lemma indexExports_nonempty:
  assumes "indexExports fi = Inr fi'" "exports fi = []"
  shows "list_all (\<lambda>kv. snd kv \<noteq> []) (exports fi')"
proof -
  obtain a0 ex0 where p: "(case map_of (mappings fi) (Some ''module.exports'') of
           None \<Rightarrow> (Some ''exports'', exports fi)
         | Some moduleExports \<Rightarrow>
             (moduleExports,
              case get_truthy (longnamesByDeclaration fi) moduleExports of
                Some longname \<Rightarrow> AList.update ''*'' longname (exports fi)
              | None \<Rightarrow> exports fi)) = (a0, ex0)"
    by (cases "(case map_of (mappings fi) (Some ''module.exports'') of
           None \<Rightarrow> (Some ''exports'', exports fi)
         | Some moduleExports \<Rightarrow>
             (moduleExports,
              case get_truthy (longnamesByDeclaration fi) moduleExports of
                Some longname \<Rightarrow> AList.update ''*'' longname (exports fi)
              | None \<Rightarrow> exports fi))")
  from p assms(2) have "list_all (\<lambda>kv. snd kv \<noteq> []) ex0"
    by (auto split: option.splits dest: get_truthy_Some_nonempty)
  moreover from assms(1) p
  have "exportsLoop (exportsAliasLoop (mappings fi) a0) (longnamesByDeclaration fi) (mappings fi) ex0
          = Inr (exports fi')"
    by (auto simp: indexExports_def Let_def split: sum.splits)
  ultimately show ?thesis by (rule exportsLoop_nonempty[rotated])
qed

lemma get_truthy_nonempty:
  "list_all (\<lambda>kv. snd kv \<noteq> []) m \<Longrightarrow> get_truthy m k = map_of m k"
  by (fastforce simp: get_truthy_def list_all_iff split: option.splits dest: map_of_SomeD)

lemma resolveRequest_pair:
  "resolveRequest reg (JPair target path) =
     (case map_of reg target of
        None \<Rightarrow> Inr JNull
      | Some info \<Rightarrow>
          (case get_truthy (exports info) (if path = [] then ''*'' else path) of
             None \<Rightarrow> Inr JNull
           | Some L \<Rightarrow> Inr (JStr L)))"
  by (simp add: resolveRequest_def js_index_def getFileInfo_def split: option.splits)

lemma resolveRequest_not_request:
  "resolveRequest reg v = Inr v' \<Longrightarrow> \<not> is_request v'"
  by (auto simp: resolveRequest_def is_request_def Let_def split: sum.splits option.splits)

lemma mapValuesE_list_all:
  "mapValuesE f kvs = Inr kvs' \<Longrightarrow> (\<And>v v'. f v = Inr v' \<Longrightarrow> Q v') \<Longrightarrow>
     list_all (\<lambda>kv. Q (snd kv)) kvs'"
  by (induction kvs arbitrary: kvs') (auto simp: mapValuesE_Cons split: sum.splits)

lemma barrier_steps:
  assumes "parsed_registry reg" "barrier reg = Inr reg'"
  obtains reg1 where "mapValuesE indexExports reg = Inr reg1"
    "mapValuesE (resolveImports reg1) reg1 = Inr reg'"
  using assms barrier_pure[of reg]
  by (auto simp: parsed_registry_def split: sum.splits)

lemma barrier_entry:
  assumes "parsed_registry reg" "barrier reg = Inr reg'" "map_of reg fname = Some info"
  shows "\<exists>reg1 info1 info'. mapValuesE indexExports reg = Inr reg1
      \<and> mapValuesE (resolveImports reg1) reg1 = Inr reg'
      \<and> indexExports info = Inr info1 \<and> map_of reg1 fname = Some info1
      \<and> resolveImports reg1 info1 = Inr info' \<and> map_of reg' fname = Some info'"
proof -
  from barrier_steps[OF assms(1,2)] obtain reg1 where
    s1: "mapValuesE indexExports reg = Inr reg1" and
    s2: "mapValuesE (resolveImports reg1) reg1 = Inr reg'" by blast
  from mapValuesE_map_of[OF s1, of fname] assms(3) obtain info1 where
    i1: "indexExports info = Inr info1" "map_of reg1 fname = Some info1"
    by (auto split: sum.splits)
  from mapValuesE_map_of[OF s2, of fname] i1(2) obtain info' where
    "resolveImports reg1 info1 = Inr info'" "map_of reg' fname = Some info'"
    by (auto split: sum.splits)
  with s1 s2 i1 show ?thesis by blast
qed

lemma barrier_same_exports:
  assumes "mapValuesE (resolveImports reg1) reg1 = Inr reg'"
  shows "map_option exports (map_of reg' k) = map_option exports (map_of reg1 k)"
proof (cases "map_of reg1 k")
  case None
  with mapValuesE_map_of[OF assms, of k] show ?thesis by simp
next
  case (Some i)
  with mapValuesE_map_of[OF assms, of k] obtain i' where
    "resolveImports reg1 i = Inr i'" "map_of reg' k = Some i'"
    by (auto split: sum.splits)
  with Some resolveImports_exports[of reg1 i i'] show ?thesis by simp
qed

text \<open>
  Claim C4 (resolution of a request). A request for the path \<open>path\<close> of the file
  \<open>target\<close> resolves to \<^verbatim>\<open>null\<close>, without an exception, when the registry has no record of
  \<open>target\<close>; otherwise the key looked up in the export table of \<open>target\<close> is \<open>path\<close>, or
  \<^verbatim>\<open>*\<close> when \<open>path\<close> is empty, and the request resolves to \<^verbatim>\<open>null\<close> when the key has no
  entry and to the long name found otherwise. After the barrier on a registry as the parse
  phase leaves it, the registry has the same files, no alias of any file is a request any
  more, and the alias of every request holds exactly that result, read in the export
  tables that the barrier computed.
\<close>

theorem resolveImports_barrier:
  "resolveRequest reg (JPair target path) =
     (case map_of reg target of
        None \<Rightarrow> Inr JNull
      | Some tinfo \<Rightarrow>
          (case get_truthy (exports tinfo) (if path = [] then ''*'' else path) of
             None \<Rightarrow> Inr JNull
           | Some L \<Rightarrow> Inr (JStr L)))
   \<and> (parsed_registry reg \<and> barrier reg = Inr reg' \<longrightarrow>
        map fst reg' = map fst reg
        \<and> (\<forall>fname info. map_of reg fname = Some info \<longrightarrow>
             (\<exists>info'. map_of reg' fname = Some info'
                \<and> list_all (\<lambda>kv. \<not> is_request (snd kv)) (localImportAliases info')
                \<and> (\<forall>name tgt pth. map_of (localImportAliases info) name = Some (JPair tgt pth) \<longrightarrow>
                      map_of (localImportAliases info') name =
                        Some (case map_of reg' tgt of
                                None \<Rightarrow> JNull
                              | Some tinfo \<Rightarrow>
                                  (case map_of (exports tinfo) (if pth = [] then ''*'' else pth) of
                                     None \<Rightarrow> JNull
                                   | Some L \<Rightarrow> JStr L))))))"
proof (intro conjI impI allI)
  show "resolveRequest reg (JPair target path) =
     (case map_of reg target of
        None \<Rightarrow> Inr JNull
      | Some tinfo \<Rightarrow>
          (case get_truthy (exports tinfo) (if path = [] then ''*'' else path) of
             None \<Rightarrow> Inr JNull
           | Some L \<Rightarrow> Inr (JStr L)))"
    by (rule resolveRequest_pair)
next
  assume a: "parsed_registry reg \<and> barrier reg = Inr reg'"
  then obtain reg1 where "mapValuesE indexExports reg = Inr reg1"
    "mapValuesE (resolveImports reg1) reg1 = Inr reg'"
    using barrier_steps by blast
  then show "map fst reg' = map fst reg" by (simp add: mapValuesE_keys)
next
  fix fname info
  assume a: "parsed_registry reg \<and> barrier reg = Inr reg'" and look: "map_of reg fname = Some info"
  from barrier_entry[OF _ _ look, of reg'] a obtain reg1 info1 info' where
    s1: "mapValuesE indexExports reg = Inr reg1" and
    s2: "mapValuesE (resolveImports reg1) reg1 = Inr reg'" and
    i1: "indexExports info = Inr info1" "map_of reg1 fname = Some info1" and
    i2: "resolveImports reg1 info1 = Inr info'" "map_of reg' fname = Some info'"
    by blast
  from a look have pi: "parsed_info info" by (auto intro: parsed_registry_lookup)
  from indexExports_only_exports[OF i1(1)]
  have al1: "localImportAliases info1 = localImportAliases info"
    by (metis FileInfo.select_convs(2) FileInfo.surjective FileInfo.update_convs(5))
  with pi have d: "distinct (map fst (localImportAliases info1))" by (simp add: parsed_info_def)
  from resolveImports_pure[OF d, of reg1] i2(1)
  have m: "mapValuesE (resolveRequest reg1) (localImportAliases info) = Inr (localImportAliases info')"
    by (auto simp: al1 split: sum.splits)
  have settled: "list_all (\<lambda>kv. \<not> is_request (snd kv)) (localImportAliases info')"
    by (rule mapValuesE_list_all[OF m]) (rule resolveRequest_not_request)
  have res: "map_of (localImportAliases info') name =
      Some (case map_of reg' tgt of
              None \<Rightarrow> JNull
            | Some tinfo \<Rightarrow>
                (case map_of (exports tinfo) (if pth = [] then ''*'' else pth) of
                   None \<Rightarrow> JNull
                 | Some L \<Rightarrow> JStr L))"
    if rq: "map_of (localImportAliases info) name = Some (JPair tgt pth)" for name tgt pth
  proof -
    from mapValuesE_map_of[OF m, of name] rq
    have r: "Inr (the (map_of (localImportAliases info') name)) = resolveRequest reg1 (JPair tgt pth)"
      and s: "map_of (localImportAliases info') name \<noteq> None"
      by (auto split: sum.splits)
    have e: "map_option exports (map_of reg' tgt) = map_option exports (map_of reg1 tgt)"
      by (rule barrier_same_exports[OF s2])
    show ?thesis
    proof (cases "map_of reg1 tgt")
      case None
      with e have "map_of reg' tgt = None" by simp
      with None r s show ?thesis by (auto simp: resolveRequest_pair)
    next
      case (Some t1)
      with e obtain t' where t': "map_of reg' tgt = Some t'" "exports t' = exports t1" by auto
      from mapValuesE_map_of[OF s1, of tgt] Some obtain t0 where
        t0: "map_of reg tgt = Some t0" "indexExports t0 = Inr t1"
        by (auto split: option.splits sum.splits)
      from a t0(1) have "parsed_info t0" by (auto intro: parsed_registry_lookup)
      with indexExports_nonempty[OF t0(2)] have "list_all (\<lambda>kv. snd kv \<noteq> []) (exports t1)"
        by (simp add: parsed_info_def)
      from get_truthy_nonempty[OF this] Some t' r s show ?thesis
        by (cases "pth = []") (auto simp: resolveRequest_pair split: option.splits)
    qed
  qed
  from i2(2) settled res
  show "\<exists>info'. map_of reg' fname = Some info'
      \<and> list_all (\<lambda>kv. \<not> is_request (snd kv)) (localImportAliases info')
      \<and> (\<forall>name tgt pth. map_of (localImportAliases info) name = Some (JPair tgt pth) \<longrightarrow>
            map_of (localImportAliases info') name =
              Some (case map_of reg' tgt of
                      None \<Rightarrow> JNull
                    | Some tinfo \<Rightarrow>
                        (case map_of (exports tinfo) (if pth = [] then ''*'' else pth) of
                           None \<Rightarrow> JNull
                         | Some L \<Rightarrow> JStr L)))"
    by blast
qed

text \<open>
  A registry as the parse phase leaves it: \<^verbatim>\<open>/p/b.js\<close> binds the whole module
  \<^verbatim>\<open>/p/a.js\<close> and a path of a file that is not there; and the registry after the barrier.
\<close>

definition resolution_example :: registry where
  "resolution_example =
     [(''/p/b.js'', (newFileInfo ''/p/b.js'')\<lparr>localImportAliases :=
         [(''Widget'', JPair ''/p/a.js'' []), (''Gone'', JPair ''/p/missing.js'' ''x'')]\<rparr>),
      (''/p/a.js'', (newFileInfo ''/p/a.js'')\<lparr>
         longnamesByDeclaration := [(Some ''Widget'', ''pkg.Widget'')],
         mappings := [(Some ''module.exports'', Some ''Widget'')]\<rparr>)]"

definition resolution_example_after :: registry where
  "resolution_example_after =
     [(''/p/b.js'', (newFileInfo ''/p/b.js'')\<lparr>localImportAliases :=
         [(''Widget'', JStr ''pkg.Widget''), (''Gone'', JNull)]\<rparr>),
      (''/p/a.js'', (newFileInfo ''/p/a.js'')\<lparr>
         longnamesByDeclaration := [(Some ''Widget'', ''pkg.Widget'')],
         mappings := [(Some ''module.exports'', Some ''Widget'')],
         exports := [(''*'', ''pkg.Widget'')]\<rparr>)]"

theorem resolveImports_barrier_witness:
  "parsed_registry resolution_example
   \<and> barrier resolution_example = Inr resolution_example_after
   \<and> resolveRequest resolution_example (JPair ''/p/missing.js'' ''x'') = Inr JNull
   \<and> (\<exists>info'. map_of resolution_example_after ''/p/b.js'' = Some info'
         \<and> map_of (localImportAliases info') ''Widget'' = Some (JStr ''pkg.Widget'')
         \<and> map_of (localImportAliases info') ''Gone'' = Some JNull)"
proof -
  let ?b = "(newFileInfo ''/p/b.js'')\<lparr>localImportAliases :=
         [(''Widget'', JPair ''/p/a.js'' []), (''Gone'', JPair ''/p/missing.js'' ''x'')]\<rparr>"
  have h1: "parsed_registry resolution_example" by code_simp
  have h2: "barrier resolution_example = Inr resolution_example_after" by code_simp
  have look: "map_of resolution_example ''/p/b.js'' = Some ?b"
    by (simp add: resolution_example_def)
  have rq: "map_of (localImportAliases ?b) ''Widget'' = Some (JPair ''/p/a.js'' [])"
    "map_of (localImportAliases ?b) ''Gone'' = Some (JPair ''/p/missing.js'' ''x'')"
    by simp_all
  note t = resolveImports_barrier[of resolution_example "''/p/missing.js''" "''x''"
      resolution_example_after]
  from t have miss: "resolveRequest resolution_example (JPair ''/p/missing.js'' ''x'') = Inr JNull"
    by (simp add: resolution_example_def)
  from t h1 h2 look obtain info' where
    i: "map_of resolution_example_after ''/p/b.js'' = Some info'" and
    r: "\<And>name tgt pth. map_of (localImportAliases ?b) name = Some (JPair tgt pth) \<Longrightarrow>
          map_of (localImportAliases info') name =
            Some (case map_of resolution_example_after tgt of
                    None \<Rightarrow> JNull
                  | Some tinfo \<Rightarrow>
                      (case map_of (exports tinfo) (if pth = [] then ''*'' else pth) of
                         None \<Rightarrow> JNull
                       | Some L \<Rightarrow> JStr L))"
    by blast
  from r[OF rq(1)] have "map_of (localImportAliases info') ''Widget'' = Some (JStr ''pkg.Widget'')"
    by (simp add: resolution_example_after_def)
  moreover from r[OF rq(2)] have "map_of (localImportAliases info') ''Gone'' = Some JNull"
    by (simp add: resolution_example_after_def)
  ultimately show ?thesis using h1 h2 miss i by blast
qed

section \<open>The order of the files\<close>

lemma mapE_Inr_ex_iff: "(\<exists>ys. mapE f xs = Inr ys) \<longleftrightarrow> (\<forall>x\<in>set xs. \<exists>y. f x = Inr y)"
  by (induction xs) (auto split: sum.splits)

lemma mapValuesE_Inr_ex_iff:
  "(\<exists>kvs'. mapValuesE f kvs = Inr kvs') \<longleftrightarrow> (\<forall>kv\<in>set kvs. \<exists>v'. f (snd kv) = Inr v')"
proof (induction kvs)
  case Nil
  show ?case by simp
next
  case (Cons kv kvs)
  obtain k v where "kv = (k, v)" by (cases kv)
  with Cons show ?case by (auto simp: mapValuesE_Cons split: sum.splits)
qed

lemma mapValuesE_same_map:
  assumes "distinct (map fst A)" "distinct (map fst B)" "map_of A = map_of B"
    and "mapValuesE f A = Inr A'"
  shows "\<exists>B'. mapValuesE f B = Inr B' \<and> map_of B' = map_of A'"
proof -
  from assms(1-3) have "set A = set B" by (simp add: map_of_inject_set)
  with assms(4) mapValuesE_Inr_ex_iff[of f A] mapValuesE_Inr_ex_iff[of f B]
  obtain B' where B': "mapValuesE f B = Inr B'" by blast
  have "map_of B' k = map_of A' k" for k
    using mapValuesE_map_of[OF B', of k] mapValuesE_map_of[OF assms(4), of k] assms(3) by simp
  with B' show ?thesis by blast
qed

lemma same_exports_map_of: "map_of r = map_of r' \<Longrightarrow> same_exports r r'"
  by (simp add: same_exports_def)

lemma barrier_same_map:
  assumes "distinct (map fst A)" "distinct (map fst B)" "map_of A = map_of B"
    and "barrier A = Inr A'"
  shows "\<exists>B'. barrier B = Inr B' \<and> map_of B' = map_of A'"
proof -
  from assms(4) barrier_pure[OF assms(1)] obtain A1 where
    a1: "mapValuesE indexExports A = Inr A1" and
    a2: "mapValuesE (resolveImports A1) A1 = Inr A'"
    by (auto split: sum.splits)
  from mapValuesE_same_map[OF assms(1-3) a1] obtain B1 where
    b1: "mapValuesE indexExports B = Inr B1" and m1: "map_of B1 = map_of A1" by blast
  from mapValuesE_keys[OF a1] assms(1) have dA1: "distinct (map fst A1)" by simp
  from mapValuesE_keys[OF b1] assms(2) have dB1: "distinct (map fst B1)" by simp
  have "same_exports B1 A1" using m1 by (rule same_exports_map_of)
  then have "resolveImports B1 = resolveImports A1"
    by (intro ext) (rule resolveImports_same_exports)
  with mapValuesE_same_map[OF dA1 dB1 m1[symmetric] a2] obtain B' where
    "mapValuesE (resolveImports B1) B1 = Inr B'" "map_of B' = map_of A'" by auto
  with b1 barrier_pure[OF assms(2)] show ?thesis by simp
qed

lemma modifyDoclet_same_map:
  "map_of r = map_of r' \<Longrightarrow> modifyDoclet P r d = modifyDoclet P r' d"
  by (cases "d_meta d") (simp_all add: modifyDoclet_def getFileInfo_def Let_def)

lemma parseFiles_same_map:
  assumes "files_ok P files" "files_ok P files'" "set files' = set files"
  shows "\<exists>A B. parseFiles P [] files = Inr A \<and> parseFiles P [] files' = Inr B
     \<and> distinct (map fst A) \<and> distinct (map fst B) \<and> map_of A = map_of B"
proof -
  let ?A = "fold (\<lambda>f. opt_touch (fst f) (fileEffect P f)) files []"
  let ?B = "fold (\<lambda>f. opt_touch (fst f) (fileEffect P f)) files' []"
  from assms have m: "map_of files = map_of files'"
    by (simp add: files_ok_def map_of_inject_set)
  have "map_of ?A k = map_of ?B k" for k
    using map_of_fold_opt_touch[of files P "[]" k] map_of_fold_opt_touch[of files' P "[]" k]
      assms(1,2) m
    by (simp add: files_ok_def)
  then have "map_of ?A = map_of ?B" by (rule ext)
  moreover have "distinct (map fst ?A)" "distinct (map fst ?B)"
    by (simp_all add: distinct_fold_opt_touch)
  moreover from assms(1,2) have "parseFiles P [] files = Inr ?A" "parseFiles P [] files' = Inr ?B"
    by (simp_all add: files_ok_def parseFiles_fold)
  ultimately show ?thesis by blast
qed

lemma run_same_map:
  assumes "files_ok P files" "files_ok P files'" "set files' = set files"
    and "run P files = Inr (reg, ds)"
  shows "\<exists>reg' ds'. run P files' = Inr (reg', ds') \<and> map_of reg' = map_of reg"
proof -
  from parseFiles_same_map[OF assms(1-3)] obtain A B where
    p: "parseFiles P [] files = Inr A" "parseFiles P [] files' = Inr B" and
    d: "distinct (map fst A)" "distinct (map fst B)" and m: "map_of A = map_of B" by blast
  let ?ds = "concat (map (\<lambda>f. snd (snd f)) files)"
  let ?ds' = "concat (map (\<lambda>f. snd (snd f)) files')"
  from assms(4) p(1) have b: "barrier A = Inr reg" and md: "mapE (modifyDoclet P reg) ?ds = Inr ds"
    by (auto simp: run_def processingComplete_def split: sum.splits)
  from barrier_same_map[OF d m b] obtain reg' where
    b': "barrier B = Inr reg'" and m': "map_of reg' = map_of reg" by blast
  from assms(3) have "set ?ds' = set ?ds" by simp
  moreover from md have "\<forall>x\<in>set ?ds. \<exists>y. modifyDoclet P reg x = Inr y"
    using mapE_Inr_ex_iff[of "modifyDoclet P reg" ?ds] by blast
  moreover have "modifyDoclet P reg' = modifyDoclet P reg"
    by (intro ext modifyDoclet_same_map m')
  ultimately obtain ds' where "mapE (modifyDoclet P reg') ?ds' = Inr ds'"
    using mapE_Inr_ex_iff[of "modifyDoclet P reg'" ?ds'] by auto
  with p(2) b' m' show ?thesis
    by (simp add: run_def processingComplete_def)
qed

text \<open>
  Claim C8 (determinism under file ordering). Take two lists of the same files, in any
  order: the names of the files are distinct and every doclet of a file resolves to the
  name of its file. If the run over one list returns, so does the run over the other, and
  the two registries hold the same object under every name, hence the same export table
  and the same resolved aliases for every file. If one run raises, so does the other.
\<close>

theorem run_order_independent:
  assumes "files_ok P files" "files_ok P files'" "set files' = set files"
  shows "(\<forall>reg ds. run P files = Inr (reg, ds) \<longrightarrow>
            (\<exists>reg' ds'. run P files' = Inr (reg', ds') \<and> map_of reg' = map_of reg
               \<and> (\<forall>fname. map_option exports (map_of reg' fname)
                             = map_option exports (map_of reg fname)
                    \<and> map_option localImportAliases (map_of reg' fname)
                             = map_option localImportAliases (map_of reg fname))))
     \<and> (\<forall>err. run P files = Inl err \<longrightarrow> (\<exists>err'. run P files' = Inl err'))"
proof (intro conjI allI impI)
  fix reg ds
  assume "run P files = Inr (reg, ds)"
  from run_same_map[OF assms this] obtain reg' ds' where
    "run P files' = Inr (reg', ds')" "map_of reg' = map_of reg" by blast
  then show "\<exists>reg' ds'. run P files' = Inr (reg', ds') \<and> map_of reg' = map_of reg
               \<and> (\<forall>fname. map_option exports (map_of reg' fname)
                             = map_option exports (map_of reg fname)
                    \<and> map_option localImportAliases (map_of reg' fname)
                             = map_option localImportAliases (map_of reg fname))"
    by simp
next
  fix err
  assume e: "run P files = Inl err"
  show "\<exists>err'. run P files' = Inl err'"
  proof (cases "run P files'")
    case (Inl err')
    then show ?thesis by blast
  next
    case (Inr res)
    obtain reg' ds' where "res = (reg', ds')" by (cases res)
    with Inr run_same_map[OF assms(2,1) assms(3)[symmetric], of reg' ds'] e
    show ?thesis by auto
  qed
qed

theorem run_order_independent_witness:
  "files_ok (posix_path ''/'') [widget_module, importer ''const Widget = require('./a');'' [''Widget'']]
   \<and> files_ok (posix_path ''/'') [importer ''const Widget = require('./a');'' [''Widget''], widget_module]
   \<and> (\<exists>reg ds reg' ds'.
         run (posix_path ''/'') [widget_module, importer ''const Widget = require('./a');'' [''Widget'']]
           = Inr (reg, ds)
         \<and> run (posix_path ''/'') [importer ''const Widget = require('./a');'' [''Widget''], widget_module]
           = Inr (reg', ds')
         \<and> map_of reg' = map_of reg
         \<and> map_option localImportAliases (map_of reg ''/p/b.js'') = Some [(''Widget'', JStr ''pkg.Widget'')])"
proof -
  let ?P = "posix_path ''/''"
  let ?b = "importer ''const Widget = require('./a');'' [''Widget'']"
  have h1: "files_ok ?P [widget_module, ?b]" by code_simp
  have h2: "files_ok ?P [?b, widget_module]" by code_simp
  have h3: "set [?b, widget_module] = set [widget_module, ?b]" by auto
  have "aliases_of ''/p/b.js'' (run ?P [widget_module, ?b]) = Some [(''Widget'', JStr ''pkg.Widget'')]"
    by code_simp
  then obtain reg ds where r: "run ?P [widget_module, ?b] = Inr (reg, ds)"
    and a: "map_option localImportAliases (map_of reg ''/p/b.js'') = Some [(''Widget'', JStr ''pkg.Widget'')]"
    by (auto simp: aliases_of_def split: sum.splits)
  from run_order_independent[OF h1 h2 h3] r obtain reg' ds' where
    "run ?P [?b, widget_module] = Inr (reg', ds')" "map_of reg' = map_of reg" by blast
  with h1 h2 r a show ?thesis by blast
qed

end
